theory Spec2Isabelle
  imports Main "HOL-Library.Word"
begin

unbundle bit_operations_syntax

section \<open>ARM Serial Wire Debug engine (testjig/production/arm\_debug.cpp)\<close>

text \<open>
  A shallow embedding of the class \<open>ARMDebug\<close>. The object and the hardware it
  drives are one record that every member function takes and returns. The Arduino calls
  \<open>pinMode\<close>, \<open>digitalWrite\<close> and \<open>digitalRead\<close> append to a trace of pin events;
  what \<open>digitalRead\<close> samples is an input of the model: \<open>line s k\<close> is the level the
  data line shows at the \<open>k\<close>-th sample taken since the state was created. The serial
  console is the list of the messages \<open>log\<close> has printed.
\<close>

subsection \<open>Types and constants\<close>

text \<open>
  \<open>uint32_t\<close> and \<open>unsigned\<close> are 32-bit words (the test jig runs on a 32-bit ARM
  board; \<open>accessPort << 24\<close> needs as much), \<open>uint8_t\<close> is an 8-bit word. Counts of
  bits and of buffer elements only count down to zero and are natural numbers; the counters
  \<open>retries\<close>, which are decremented past zero, are words.
\<close>

type_synonym u8 = "8 word"
type_synonym u32 = "32 word"

text \<open>Debug port registers (\<open>enum DebugPortReg\<close>).\<close>

definition ABORT :: u32 where "ABORT = 0x0"
definition IDCODE :: u32 where "IDCODE = 0x0"
definition CTRLSTAT :: u32 where "CTRLSTAT = 0x4"
definition SELECT :: u32 where "SELECT = 0x8"
definition RDBUFF :: u32 where "RDBUFF = 0xC"

text \<open>CTRL/STAT bits (\<open>enum CtrlStatBit\<close>).\<close>

definition CSYSPWRUPACK :: u32 where "CSYSPWRUPACK = push_bit 31 1"
definition CSYSPWRUPREQ :: u32 where "CSYSPWRUPREQ = push_bit 30 1"
definition CDBGPWRUPACK :: u32 where "CDBGPWRUPACK = push_bit 29 1"
definition CDBGPWRUPREQ :: u32 where "CDBGPWRUPREQ = push_bit 28 1"

text \<open>Memory access port registers (\<open>enum MemPortReg\<close>).\<close>

definition MEM_CSW :: u32 where "MEM_CSW = 0x00"
definition MEM_TAR :: u32 where "MEM_TAR = 0x04"
definition MEM_DRW :: u32 where "MEM_DRW = 0x0C"
definition MEM_IDR :: u32 where "MEM_IDR = 0xFC"

text \<open>
  Modelled from the spec: the \<open>LogLevel\<close> enumeration is declared in arm\_debug.h, which
  is not among the sources. The spec names three levels of diagnostics, error, normal and
  trace, under a verbosity threshold; they are numbered in that order.
\<close>

definition LOG_ERROR :: int where "LOG_ERROR = 1"
definition LOG_NORMAL :: int where "LOG_NORMAL = 2"
definition LOG_TRACE :: int where "LOG_TRACE = 3"

datatype pin_mode = OUTPUT | INPUT_PULLUP

datatype gpio_event =
    PinMode u32 pin_mode
  | DigitalWrite u32 bool
  | DigitalRead u32 bool

text \<open>
  One constructor for each format string passed to \<open>log\<close>, with its arguments. The
  argument of \<open>Failed_to_power_on\<close> is the local variable \<open>ctrlstat\<close> of \<open>begin\<close>,
  which is declared without a value: \<open>None\<close> stands for the variable before its first
  assignment.
\<close>

datatype message =
    SWD_Write u32 nat
  | SWD_Read u32 nat
  | SWD_Write_trn
  | SWD_Read_trn
  | DP_Write u32 bool u32
  | DP_Read u32 bool u32
  | MEM_Store u32 u32
  | MEM_Load u32 u32
  | No_processor_detected
  | Incorrect_part_number u32
  | Found_processor u32
  | Failed_to_power_on "u32 option"
  | Not_an_AHB_AP u32
  | FAULT_during_write u32 bool u32
  | PROTOCOL_ERROR_during_write u32 u32 bool u32
  | WAIT_timeout_during_write u32 bool u32
  | PARITY_ERROR_during_read u32 bool u32
  | FAULT_during_read u32 bool
  | PROTOCOL_ERROR_during_read u32 u32 bool
  | WAIT_timeout_during_read u32 bool

record armdebug =
  clockPin :: u32
  dataPin :: u32
  logLevel :: int
  cache_select :: u32
  gpio :: "gpio_event list"
  line :: "nat \<Rightarrow> bool"
  sampled :: nat
  serial :: bool
  console :: "message list"

text \<open>
  Every member function returns \<open>bool\<close>. The model returns \<open>OK\<close> for \<open>true\<close> and,
  for \<open>false\<close>, the failure path that was taken, named after the diagnostic of that path.
\<close>

datatype fault =
    NoDeviceDetected
  | UnrecognizedPart
  | PowerUpTimeout
  | UnexpectedAccessPortType
  | ProtocolFault
  | ProtocolError
  | WaitTimeout
  | ParityError

datatype status = OK | Failed fault

text \<open>
  The result of a read through a \<open>uint32_t &\<close>: \<open>Read d\<close> is \<open>true\<close> with \<open>d\<close> stored
  in the referenced variable; \<open>ReadFailed f w\<close> is \<open>false\<close>, where \<open>w\<close> is the word the
  call stored in the variable before it failed, if it stored one.
\<close>

datatype rstatus = Read u32 | ReadFailed fault "u32 option"

fun returns_true :: "status \<Rightarrow> bool" where
  "returns_true OK = True"
| "returns_true (Failed f) = False"

fun read_returns_true :: "rstatus \<Rightarrow> bool" where
  "read_returns_true (Read d) = True"
| "read_returns_true (ReadFailed f w) = False"

subsection \<open>The Arduino calls and the log\<close>

definition pinMode :: "u32 \<Rightarrow> pin_mode \<Rightarrow> armdebug \<Rightarrow> armdebug" where
  "pinMode pin m s = s\<lparr>gpio := gpio s @ [PinMode pin m]\<rparr>"

definition digitalWrite :: "u32 \<Rightarrow> bool \<Rightarrow> armdebug \<Rightarrow> armdebug" where
  "digitalWrite pin v s = s\<lparr>gpio := gpio s @ [DigitalWrite pin v]\<rparr>"

definition digitalRead :: "u32 \<Rightarrow> armdebug \<Rightarrow> bool \<times> armdebug" where
  "digitalRead pin s =
     (line s (sampled s),
      s\<lparr>gpio := gpio s @ [DigitalRead pin (line s (sampled s))], sampled := Suc (sampled s)\<rparr>)"

definition log :: "int \<Rightarrow> message \<Rightarrow> armdebug \<Rightarrow> armdebug" where
  "log level m s =
     (if level \<le> logLevel s \<and> serial s then s\<lparr>console := console s @ [m]\<rparr> else s)"

subsection \<open>Wire layer\<close>

fun wireWrite_loop :: "u32 \<Rightarrow> nat \<Rightarrow> armdebug \<Rightarrow> armdebug" where
  "wireWrite_loop data 0 s = s"
| "wireWrite_loop data (Suc nBits) s =
     wireWrite_loop (drop_bit 1 data) nBits
       (digitalWrite (clockPin s) True
         (digitalWrite (clockPin s) False
           (digitalWrite (dataPin s) (data AND 1 \<noteq> 0) s)))"

definition wireWrite :: "u32 \<Rightarrow> nat \<Rightarrow> armdebug \<Rightarrow> armdebug" where
  "wireWrite data nBits s = wireWrite_loop data nBits (log LOG_TRACE (SWD_Write data nBits) s)"

fun wireRead_loop :: "nat \<Rightarrow> u32 \<Rightarrow> u32 \<Rightarrow> armdebug \<Rightarrow> u32 \<times> armdebug" where
  "wireRead_loop 0 mask' result s = (result, s)"
| "wireRead_loop (Suc count) mask' result s =
     (case digitalRead (dataPin s) s of (b, s1) \<Rightarrow>
        wireRead_loop count (push_bit 1 mask') (if b then result OR mask' else result)
          (digitalWrite (clockPin s1) True (digitalWrite (clockPin s1) False s1)))"

definition wireRead :: "nat \<Rightarrow> armdebug \<Rightarrow> u32 \<times> armdebug" where
  "wireRead nBits s =
     (case wireRead_loop nBits 1 0 s of (result, s1) \<Rightarrow>
        (result, log LOG_TRACE (SWD_Read result nBits) s1))"

definition wireWriteTurnaround :: "armdebug \<Rightarrow> armdebug" where
  "wireWriteTurnaround s =
     (let s0 = log LOG_TRACE SWD_Write_trn s;
          s1 = digitalWrite (dataPin s0) True s0;
          s2 = pinMode (dataPin s1) INPUT_PULLUP s1;
          s3 = digitalWrite (clockPin s2) False s2;
          s4 = digitalWrite (clockPin s3) True s3
      in pinMode (dataPin s4) OUTPUT s4)"

definition wireReadTurnaround :: "armdebug \<Rightarrow> armdebug" where
  "wireReadTurnaround s =
     (let s0 = log LOG_TRACE SWD_Read_trn s;
          s1 = digitalWrite (dataPin s0) True s0;
          s2 = pinMode (dataPin s1) INPUT_PULLUP s1;
          s3 = digitalWrite (clockPin s2) False s2
      in digitalWrite (clockPin s3) True s3)"

subsection \<open>Header and parity\<close>

definition evenParity :: "u32 \<Rightarrow> bool" where
  "evenParity word =
     (let word = (word AND 0xFFFF) XOR (drop_bit 16 word);
          word = (word AND 0xFF) XOR (drop_bit 8 word);
          word = (word AND 0xF) XOR (drop_bit 4 word);
          word = (word AND 0x3) XOR (drop_bit 2 word);
          word = (word AND 0x1) XOR (drop_bit 1 word)
      in word \<noteq> 0)"

definition packHeader :: "u32 \<Rightarrow> bool \<Rightarrow> bool \<Rightarrow> u8" where
  "packHeader addr APnDP RnW =
     (let a2 = ((drop_bit 2 addr) AND 1 \<noteq> 0);
          a3 = ((drop_bit 3 addr) AND 1 \<noteq> 0);
          parity = ((of_bool APnDP XOR of_bool RnW XOR of_bool a2 XOR of_bool a3 :: u32) \<noteq> 0)
      in ucast (push_bit 0 1
                OR push_bit 1 (of_bool APnDP)
                OR push_bit 2 (of_bool RnW)
                OR push_bit 1 (addr AND 0xC)
                OR push_bit 5 (of_bool parity)
                OR push_bit 7 1 :: u32))"

subsection \<open>Debug port transactions\<close>

text \<open>
  The body of the \<open>do ... while (retries--)\<close> loop of \<open>dpWrite\<close>, entered with the
  current value of \<open>retries\<close>. A loop that does not come to an end is the value \<open>None\<close>.
\<close>

partial_function (option) dpWrite_loop ::
  "u32 \<Rightarrow> bool \<Rightarrow> u32 \<Rightarrow> u32 \<Rightarrow> armdebug \<Rightarrow> (status \<times> armdebug) option" where
  "dpWrite_loop addr APnDP data retries s =
     (case wireRead 3 (wireReadTurnaround (wireWrite (ucast (packHeader addr APnDP False)) 8 s)) of
        (ack, s1) \<Rightarrow>
          if ack = 1 then
            Some (OK, wireWrite 0 8 (wireWrite (of_bool (evenParity data)) 1
                        (wireWrite data 32 (wireWriteTurnaround s1))))
          else if ack = 2 then
            (if retries - 1 \<noteq> 0
             then dpWrite_loop addr APnDP data (retries - 1 - 1)
                    (wireWrite 0 8 (wireWriteTurnaround s1))
             else Some (Failed WaitTimeout,
                    log LOG_ERROR (WAIT_timeout_during_write addr APnDP data)
                      (wireWrite 0 8 (wireWriteTurnaround s1))))
          else if ack = 4 then
            Some (Failed ProtocolFault,
                  log LOG_ERROR (FAULT_during_write addr APnDP data)
                    (wireWrite 0 8 (wireWriteTurnaround s1)))
          else
            Some (Failed ProtocolError,
                  log LOG_ERROR (PROTOCOL_ERROR_during_write ack addr APnDP data)
                    (wireWrite 0 8 (wireWriteTurnaround s1))))"

declare dpWrite_loop.simps [code]

definition dpWrite :: "u32 \<Rightarrow> bool \<Rightarrow> u32 \<Rightarrow> armdebug \<Rightarrow> (status \<times> armdebug) option" where
  "dpWrite addr APnDP data s =
     dpWrite_loop addr APnDP data 10 (log LOG_TRACE (DP_Write addr APnDP data) s)"

partial_function (option) dpRead_loop ::
  "u32 \<Rightarrow> bool \<Rightarrow> u32 \<Rightarrow> armdebug \<Rightarrow> (rstatus \<times> armdebug) option" where
  "dpRead_loop addr APnDP retries s =
     (case wireRead 3 (wireReadTurnaround (wireWrite (ucast (packHeader addr APnDP True)) 8 s)) of
        (ack, s1) \<Rightarrow>
          if ack = 1 then
            (case wireRead 32 s1 of (data, s2) \<Rightarrow>
             case wireRead 1 s2 of (p, s3) \<Rightarrow>
               if p \<noteq> of_bool (evenParity data) then
                 Some (ReadFailed ParityError (Some data),
                       log LOG_ERROR (PARITY_ERROR_during_read addr APnDP data)
                         (wireWrite 0 8 (wireWriteTurnaround s3)))
               else
                 Some (Read data,
                       log LOG_TRACE (DP_Read addr APnDP data)
                         (wireWrite 0 8 (wireWriteTurnaround s3))))
          else if ack = 2 then
            (if retries - 1 \<noteq> 0
             then dpRead_loop addr APnDP (retries - 1 - 1)
                    (wireWrite 0 8 (wireWriteTurnaround s1))
             else Some (ReadFailed WaitTimeout None,
                    log LOG_ERROR (WAIT_timeout_during_read addr APnDP)
                      (wireWrite 0 8 (wireWriteTurnaround s1))))
          else if ack = 4 then
            Some (ReadFailed ProtocolFault None,
                  log LOG_ERROR (FAULT_during_read addr APnDP)
                    (wireWrite 0 8 (wireWriteTurnaround s1)))
          else
            Some (ReadFailed ProtocolError None,
                  log LOG_ERROR (PROTOCOL_ERROR_during_read ack addr APnDP)
                    (wireWrite 0 8 (wireWriteTurnaround s1))))"

declare dpRead_loop.simps [code]

definition dpRead :: "u32 \<Rightarrow> bool \<Rightarrow> armdebug \<Rightarrow> (rstatus \<times> armdebug) option" where
  "dpRead addr APnDP s = dpRead_loop addr APnDP 10 s"

subsection \<open>Access port layer\<close>

definition select_value :: "u32 \<Rightarrow> u32 \<Rightarrow> u32" where
  "select_value accessPort addr = push_bit 24 accessPort OR (addr AND 0xF0)"

definition dpSelect :: "u32 \<Rightarrow> u32 \<Rightarrow> armdebug \<Rightarrow> (status \<times> armdebug) option" where
  "dpSelect accessPort addr s =
     (if select_value accessPort addr \<noteq> cache_select s then
        (case dpWrite SELECT False (select_value accessPort addr) s of
           None \<Rightarrow> None
         | Some (Failed f, s1) \<Rightarrow> Some (Failed f, s1)
         | Some (OK, s1) \<Rightarrow> Some (OK, s1\<lparr>cache_select := select_value accessPort addr\<rparr>))
      else Some (OK, s))"

definition apWrite :: "u32 \<Rightarrow> u32 \<Rightarrow> u32 \<Rightarrow> armdebug \<Rightarrow> (status \<times> armdebug) option" where
  "apWrite accessPort addr data s =
     (case dpSelect accessPort addr s of
        None \<Rightarrow> None
      | Some (Failed f, s1) \<Rightarrow> Some (Failed f, s1)
      | Some (OK, s1) \<Rightarrow> dpWrite addr True data s1)"

definition apRead :: "u32 \<Rightarrow> u32 \<Rightarrow> armdebug \<Rightarrow> (rstatus \<times> armdebug) option" where
  "apRead accessPort addr s =
     (case dpSelect accessPort addr s of
        None \<Rightarrow> None
      | Some (Failed f, s1) \<Rightarrow> Some (ReadFailed f None, s1)
      | Some (OK, s1) \<Rightarrow> dpRead addr True s1)"

subsection \<open>Memory access\<close>

text \<open>
  A \<open>uint32_t *\<close> is a buffer, a function from word offsets to words, with the offset the
  pointer has reached. \<open>assigned r old\<close> is the content of a variable after a read through
  a reference to it, given its content before.
\<close>

type_synonym buffer = "nat \<Rightarrow> u32"

fun assigned :: "rstatus \<Rightarrow> u32 \<Rightarrow> u32" where
  "assigned (Read d) old = d"
| "assigned (ReadFailed f (Some d)) old = d"
| "assigned (ReadFailed f None) old = old"

fun memStore_loop ::
  "u32 \<Rightarrow> buffer \<Rightarrow> nat \<Rightarrow> nat \<Rightarrow> armdebug \<Rightarrow> (status \<times> armdebug) option" where
  "memStore_loop addr data i 0 s = Some (OK, s)"
| "memStore_loop addr data i (Suc count) s =
     (case apWrite 0 MEM_DRW (data i) (log LOG_TRACE (MEM_Store addr (data i)) s) of
        None \<Rightarrow> None
      | Some (Failed f, s1) \<Rightarrow> Some (Failed f, s1)
      | Some (OK, s1) \<Rightarrow> memStore_loop (addr + 1) data (Suc i) count s1)"

definition memStore ::
  "u32 \<Rightarrow> buffer \<Rightarrow> nat \<Rightarrow> armdebug \<Rightarrow> (status \<times> armdebug) option" where
  "memStore addr data count s =
     (case apWrite 0 MEM_TAR addr s of
        None \<Rightarrow> None
      | Some (Failed f, s1) \<Rightarrow> Some (Failed f, s1)
      | Some (OK, s1) \<Rightarrow> memStore_loop addr data 0 count s1)"

fun memLoad_loop ::
  "u32 \<Rightarrow> buffer \<Rightarrow> nat \<Rightarrow> nat \<Rightarrow> armdebug \<Rightarrow> (status \<times> buffer \<times> armdebug) option" where
  "memLoad_loop addr data i 0 s = Some (OK, data, s)"
| "memLoad_loop addr data i (Suc count) s =
     (case apRead 0 MEM_DRW s of
        None \<Rightarrow> None
      | Some (ReadFailed f w, s1) \<Rightarrow>
          Some (Failed f, data(i := assigned (ReadFailed f w) (data i)), s1)
      | Some (Read d, s1) \<Rightarrow>
          memLoad_loop (addr + 1) (data(i := d)) (Suc i) count
            (log LOG_TRACE (MEM_Load addr d) s1))"

definition memLoad ::
  "u32 \<Rightarrow> buffer \<Rightarrow> nat \<Rightarrow> armdebug \<Rightarrow> (status \<times> buffer \<times> armdebug) option" where
  "memLoad addr data count s =
     (case apWrite 0 MEM_TAR addr s of
        None \<Rightarrow> None
      | Some (Failed f, s1) \<Rightarrow> Some (Failed f, data, s1)
      | Some (OK, s1) \<Rightarrow> memLoad_loop addr data 0 count s1)"

text \<open>
  The single-word forms pass the address of their own parameter with a count of one; the
  buffer then is that one variable, at offset 0.
\<close>

definition memStore1 :: "u32 \<Rightarrow> u32 \<Rightarrow> armdebug \<Rightarrow> (status \<times> armdebug) option" where
  "memStore1 addr data s = memStore addr (\<lambda>i. data) 1 s"

definition memLoad1 :: "u32 \<Rightarrow> u32 \<Rightarrow> armdebug \<Rightarrow> (status \<times> u32 \<times> armdebug) option" where
  "memLoad1 addr data s =
     (case memLoad addr (\<lambda>i. data) 1 s of
        None \<Rightarrow> None
      | Some (r, data1, s1) \<Rightarrow> Some (r, data1 0, s1))"

subsection \<open>Link initialisation\<close>

text \<open>
  The loop \<open>while (retries--) { ... }\<close> of \<open>begin\<close> that waits for the power-up
  acknowledgment. It is entered with the current \<open>retries\<close> and \<open>ctrlstat\<close> (\<open>None\<close>
  while the local variable has not been assigned) and leaves either through
  \<open>return false\<close>, which is \<open>Inl\<close> of the fault, or to the statement after the loop,
  which is \<open>Inr\<close> of the two variables as the loop left them.
\<close>

function powerUp_loop ::
  "u32 \<Rightarrow> u32 option \<Rightarrow> armdebug \<Rightarrow> ((fault + u32 \<times> u32 option) \<times> armdebug) option" where
  "powerUp_loop retries ctrlstat s =
     (if retries \<noteq> 0 then
        (case dpRead CTRLSTAT False s of
           None \<Rightarrow> None
         | Some (ReadFailed f w, s1) \<Rightarrow> Some (Inl f, s1)
         | Some (Read d, s1) \<Rightarrow>
             if d AND (CDBGPWRUPACK OR CSYSPWRUPACK) = (CDBGPWRUPACK OR CSYSPWRUPACK)
             then Some (Inr (retries - 1, Some d), s1)
             else powerUp_loop (retries - 1) (Some d) s1)
      else Some (Inr (retries - 1, ctrlstat), s))"
  by pat_completeness auto
termination
  by (relation "measure (\<lambda>(retries, ctrlstat, s). unat retries)")
     (auto simp: measure_unat)

text \<open>The part of \<open>begin\<close> that follows the power-up wait: the access port checks.\<close>

definition begin_accessPort :: "armdebug \<Rightarrow> (status \<times> armdebug) option" where
  "begin_accessPort s =
     (case apRead 0 MEM_IDR s of
        None \<Rightarrow> None
      | Some (ReadFailed f w, s1) \<Rightarrow> Some (Failed f, s1)
      | Some (Read idr, s1) \<Rightarrow>
          if idr AND 0xF \<noteq> 1 then
            Some (Failed UnexpectedAccessPortType, log LOG_ERROR (Not_an_AHB_AP idr) s1)
          else apWrite 0 MEM_CSW (push_bit 6 1 OR push_bit 4 1 OR push_bit 0 2) s1)"

text \<open>The part of \<open>begin\<close> from the write of CTRL/STAT on.\<close>

definition begin_powerUp :: "armdebug \<Rightarrow> (status \<times> armdebug) option" where
  "begin_powerUp s =
     (case dpWrite CTRLSTAT False (CSYSPWRUPREQ OR CDBGPWRUPREQ) s of
        None \<Rightarrow> None
      | Some (Failed f, s1) \<Rightarrow> Some (Failed f, s1)
      | Some (OK, s1) \<Rightarrow>
          (case powerUp_loop 4 None s1 of
             None \<Rightarrow> None
           | Some (Inl f, s2) \<Rightarrow> Some (Failed f, s2)
           | Some (Inr (retries, ctrlstat), s2) \<Rightarrow>
               if retries = 0 then
                 Some (Failed PowerUpTimeout,
                       log LOG_ERROR (Failed_to_power_on ctrlstat) s2)
               else begin_accessPort s2))"

definition begin_reset :: "u32 \<Rightarrow> u32 \<Rightarrow> int \<Rightarrow> armdebug \<Rightarrow> armdebug" where
  "begin_reset clockPin' dataPin' logLevel' s =
     (let s0 = s\<lparr>clockPin := clockPin', dataPin := dataPin', logLevel := logLevel'\<rparr>;
          s1 = pinMode clockPin' OUTPUT s0;
          s2 = pinMode dataPin' INPUT_PULLUP s1;
          s3 = s2\<lparr>cache_select := 0xFFFFFFFF\<rparr>;
          s4 = wireWriteTurnaround s3;
          s5 = wireWrite 0xFFFFFFFF 32 s4;
          s6 = wireWrite 0xFFFFFFFF 32 s5;
          s7 = wireWrite 0xE79E 16 s6;
          s8 = wireWrite 0xFFFFFFFF 32 s7;
          s9 = wireWrite 0xFFFFFFFF 32 s8;
          s10 = wireWrite 0 32 s9
      in wireWrite 0 32 s10)"

definition begin' :: "u32 \<Rightarrow> u32 \<Rightarrow> int \<Rightarrow> armdebug \<Rightarrow> (status \<times> armdebug) option" where
  "begin' clockPin' dataPin' logLevel' s =
     (case dpRead IDCODE False (begin_reset clockPin' dataPin' logLevel' s) of
        None \<Rightarrow> None
      | Some (ReadFailed f w, s1) \<Rightarrow>
          Some (Failed NoDeviceDetected, log LOG_ERROR No_processor_detected s1)
      | Some (Read idcode, s1) \<Rightarrow>
          if idcode AND 0x0FF00001 \<noteq> 0x0ba00001 then
            Some (Failed UnrecognizedPart, log LOG_ERROR (Incorrect_part_number idcode) s1)
          else begin_powerUp (log LOG_NORMAL (Found_processor idcode) s1))"

section \<open>Notions used in the statements\<close>

subsection \<open>Population count\<close>

text \<open>The number of set bits of a 32-bit word, counted one position at a time.\<close>

definition popcount :: "u32 \<Rightarrow> nat" where
  "popcount w = length (filter (bit w) [0..<32])"

text \<open>One folding step of \<open>evenParity\<close>: the low \<open>k\<close> bits XOR the bits above them.\<close>

definition fold_half :: "nat \<Rightarrow> u32 \<Rightarrow> u32" where
  "fold_half k w = (w AND mask k) XOR drop_bit k w"

subsection \<open>What the wire shows and what the pins do\<close>

text \<open>
  \<open>received f k n\<close> is the word whose bit \<open>i\<close>, for \<open>i < n\<close>, is sample \<open>k + i\<close> of the
  data line \<open>f\<close>: what \<open>n\<close> reads starting at sample \<open>k\<close> assemble, least significant bit
  first.
\<close>

definition received :: "(nat \<Rightarrow> bool) \<Rightarrow> nat \<Rightarrow> nat \<Rightarrow> u32" where
  "received f k n = horner_sum of_bool 2 (map f [k..<k + n])"

text \<open>
  \<open>emit es ms k s\<close> is the state \<open>s\<close> after the pin events \<open>es\<close>, the console lines
  \<open>ms\<close> and \<open>k\<close> more samples of the data line. \<open>printed level m s\<close> is what a call of
  \<open>log\<close> adds to the console.
\<close>

definition emit :: "gpio_event list \<Rightarrow> message list \<Rightarrow> nat \<Rightarrow> armdebug \<Rightarrow> armdebug" where
  "emit es ms k s =
     s\<lparr>gpio := gpio s @ es, sampled := sampled s + k, console := console s @ ms\<rparr>"

definition printed :: "int \<Rightarrow> message \<Rightarrow> armdebug \<Rightarrow> message list" where
  "printed level m s = (if level \<le> logLevel s \<and> serial s then [m] else [])"

text \<open>The pin events of \<open>wireWrite\<close> and \<open>wireRead\<close>: per bit, the data pin and a clock pulse.\<close>

fun write_events :: "u32 \<Rightarrow> u32 \<Rightarrow> u32 \<Rightarrow> nat \<Rightarrow> gpio_event list" where
  "write_events cp dp d 0 = []"
| "write_events cp dp d (Suc n) =
     [DigitalWrite dp (d AND 1 \<noteq> 0), DigitalWrite cp False, DigitalWrite cp True]
       @ write_events cp dp (drop_bit 1 d) n"

fun read_events :: "u32 \<Rightarrow> u32 \<Rightarrow> (nat \<Rightarrow> bool) \<Rightarrow> nat \<Rightarrow> nat \<Rightarrow> gpio_event list" where
  "read_events cp dp f k 0 = []"
| "read_events cp dp f k (Suc n) =
     [DigitalRead dp (f k), DigitalWrite cp False, DigitalWrite cp True]
       @ read_events cp dp f (Suc k) n"

definition write_trn_events :: "u32 \<Rightarrow> u32 \<Rightarrow> gpio_event list" where
  "write_trn_events cp dp =
     [DigitalWrite dp True, PinMode dp INPUT_PULLUP, DigitalWrite cp False, DigitalWrite cp True,
      PinMode dp OUTPUT]"

definition read_trn_events :: "u32 \<Rightarrow> u32 \<Rightarrow> gpio_event list" where
  "read_trn_events cp dp =
     [DigitalWrite dp True, PinMode dp INPUT_PULLUP, DigitalWrite cp False, DigitalWrite cp True]"

text \<open>Eight idle bits: the data pin low and a clock pulse, eight times.\<close>

definition idle_events :: "u32 \<Rightarrow> u32 \<Rightarrow> gpio_event list" where
  "idle_events cp dp =
     concat (replicate 8 [DigitalWrite dp False, DigitalWrite cp False, DigitalWrite cp True])"

text \<open>
  \<open>request header s\<close> is the state after the header, the read turnaround and the three
  acknowledge bits of one attempt; \<open>idle s\<close> the state after a write turnaround and eight
  idle bits.
\<close>

definition request :: "u8 \<Rightarrow> armdebug \<Rightarrow> armdebug" where
  "request header s = snd (wireRead 3 (wireReadTurnaround (wireWrite (ucast header) 8 s)))"

definition idle :: "armdebug \<Rightarrow> armdebug" where
  "idle s = wireWrite 0 8 (wireWriteTurnaround s)"

text \<open>\<open>data_phase s\<close> is the state after the 32 data bits and the parity bit of a read.\<close>

definition data_phase :: "armdebug \<Rightarrow> armdebug" where
  "data_phase s = snd (wireRead 1 (snd (wireRead 32 s)))"

text \<open>
  \<open>same_link s s'\<close>: the two states have the same pins, log level, console connection,
  selection cache and data line.
\<close>

definition same_link :: "armdebug \<Rightarrow> armdebug \<Rightarrow> bool" where
  "same_link s s' =
     (clockPin s' = clockPin s \<and> dataPin s' = dataPin s \<and> logLevel s' = logLevel s \<and>
      cache_select s' = cache_select s \<and> line s' = line s \<and> serial s' = serial s)"

text \<open>
  One pass through the body of the loop of \<open>dpWrite\<close> and of \<open>dpRead\<close>, written with
  \<open>received\<close>, \<open>request\<close> and \<open>idle\<close>; \<open>continue\<close> stands for the next pass.
\<close>

definition dpWrite_step ::
  "(u32 \<Rightarrow> armdebug \<Rightarrow> (status \<times> armdebug) option) \<Rightarrow>
     u32 \<Rightarrow> bool \<Rightarrow> u32 \<Rightarrow> u32 \<Rightarrow> armdebug \<Rightarrow> (status \<times> armdebug) option" where
  "dpWrite_step continue addr APnDP data retries s =
     (if received (line s) (sampled s) 3 = 1 then
        Some (OK, wireWrite 0 8 (wireWrite (of_bool (evenParity data)) 1
                    (wireWrite data 32
                      (wireWriteTurnaround (request (packHeader addr APnDP False) s)))))
      else if received (line s) (sampled s) 3 = 2 then
        (if retries - 1 \<noteq> 0
         then continue (retries - 1 - 1) (idle (request (packHeader addr APnDP False) s))
         else Some (Failed WaitTimeout,
                log LOG_ERROR (WAIT_timeout_during_write addr APnDP data)
                  (idle (request (packHeader addr APnDP False) s))))
      else if received (line s) (sampled s) 3 = 4 then
        Some (Failed ProtocolFault,
              log LOG_ERROR (FAULT_during_write addr APnDP data)
                (idle (request (packHeader addr APnDP False) s)))
      else
        Some (Failed ProtocolError,
              log LOG_ERROR
                (PROTOCOL_ERROR_during_write (received (line s) (sampled s) 3) addr APnDP data)
                (idle (request (packHeader addr APnDP False) s))))"

definition dpRead_step ::
  "(u32 \<Rightarrow> armdebug \<Rightarrow> (rstatus \<times> armdebug) option) \<Rightarrow>
     u32 \<Rightarrow> bool \<Rightarrow> u32 \<Rightarrow> armdebug \<Rightarrow> (rstatus \<times> armdebug) option" where
  "dpRead_step continue addr APnDP retries s =
     (if received (line s) (sampled s) 3 = 1 then
        (if received (line s) (sampled s + 35) 1
              \<noteq> of_bool (evenParity (received (line s) (sampled s + 3) 32))
         then
           Some (ReadFailed ParityError (Some (received (line s) (sampled s + 3) 32)),
                 log LOG_ERROR
                   (PARITY_ERROR_during_read addr APnDP (received (line s) (sampled s + 3) 32))
                   (idle (data_phase (request (packHeader addr APnDP True) s))))
         else
           Some (Read (received (line s) (sampled s + 3) 32),
                 log LOG_TRACE (DP_Read addr APnDP (received (line s) (sampled s + 3) 32))
                   (idle (data_phase (request (packHeader addr APnDP True) s)))))
      else if received (line s) (sampled s) 3 = 2 then
        (if retries - 1 \<noteq> 0
         then continue (retries - 1 - 1) (idle (request (packHeader addr APnDP True) s))
         else Some (ReadFailed WaitTimeout None,
                log LOG_ERROR (WAIT_timeout_during_read addr APnDP)
                  (idle (request (packHeader addr APnDP True) s))))
      else if received (line s) (sampled s) 3 = 4 then
        Some (ReadFailed ProtocolFault None,
              log LOG_ERROR (FAULT_during_read addr APnDP)
                (idle (request (packHeader addr APnDP True) s)))
      else
        Some (ReadFailed ProtocolError None,
              log LOG_ERROR
                (PROTOCOL_ERROR_during_read (received (line s) (sampled s) 3) addr APnDP)
                (idle (request (packHeader addr APnDP True) s))))"

text \<open>
  What a transaction answers when the acknowledge \<open>ack\<close> is not WAIT, and what a read
  answers when its acknowledge, not WAIT, starts at sample \<open>k\<close> of the line \<open>f\<close>.
\<close>

definition write_outcome :: "u32 \<Rightarrow> status" where
  "write_outcome ack =
     (if ack = 1 then OK else if ack = 4 then Failed ProtocolFault else Failed ProtocolError)"

definition read_outcome :: "(nat \<Rightarrow> bool) \<Rightarrow> nat \<Rightarrow> rstatus" where
  "read_outcome f k =
     (if received f k 3 = 1 then
        (if received f (k + 35) 1 \<noteq> of_bool (evenParity (received f (k + 3) 32))
         then ReadFailed ParityError (Some (received f (k + 3) 32))
         else Read (received f (k + 3) 32))
      else if received f k 3 = 4 then ReadFailed ProtocolFault None
      else ReadFailed ProtocolError None)"

text \<open>
  Links for the examples: a link on clock pin 0 and data pin 1, logging everything to a
  connected console, with an invalidated selection cache, reading the data line \<open>f\<close>.
\<close>

definition fresh_link :: "(nat \<Rightarrow> bool) \<Rightarrow> armdebug" where
  "fresh_link f =
     \<lparr>clockPin = 0, dataPin = 1, logLevel = LOG_TRACE, cache_select = 0xFFFFFFFF, gpio = [],
      line = f, sampled = 0, serial = True, console = []\<rparr>"

text \<open>A target that answers every request with WAIT: the acknowledge bits 0, 1, 0.\<close>

definition wait_line :: "nat \<Rightarrow> bool" where
  "wait_line k = (k mod 3 = 1)"

text \<open>
  A target that answers a read with OK, then the data word 1, then the parity bit 0,
  which is not the parity of 1.
\<close>

definition parity_fault_line :: "nat \<Rightarrow> bool" where
  "parity_fault_line k = (k = 0 \<or> k = 3)"

text \<open>
  A target that answers a read first with WAIT and then with OK, the data word 1 and the
  parity bit 0.
\<close>

definition wait_then_parity_fault_line :: "nat \<Rightarrow> bool" where
  "wait_then_parity_fault_line k = (k = 1 \<or> k = 3 \<or> k = 6)"

text \<open>
  A target that answers two requests in a row with OK and leaves the line low otherwise:
  a read that is the second request receives the word 0 with the parity bit 0.
\<close>

definition two_ok_line :: "nat \<Rightarrow> bool" where
  "two_ok_line k = (k = 0 \<or> k = 3)"

text \<open>A target that answers the first request with FAULT: the acknowledge bits 0, 0, 1.\<close>

definition select_fault_line :: "nat \<Rightarrow> bool" where
  "select_fault_line k = (k = 2)"

subsection \<open>Sequences of register writes\<close>

text \<open>
  \<open>run_steps\<close> performs a list of operations in order and stops at the first that fails
  (or that does not return). It answers the result of the last operation performed and
  the number of operations performed, the failed one included.
\<close>

fun run_steps ::
  "(armdebug \<Rightarrow> (status \<times> armdebug) option) list \<Rightarrow> armdebug \<Rightarrow>
     (status \<times> nat \<times> armdebug) option" where
  "run_steps [] s = Some (OK, 0, s)"
| "run_steps (step # steps) s =
     (case step s of
        None \<Rightarrow> None
      | Some (Failed f, s1) \<Rightarrow> Some (Failed f, 1, s1)
      | Some (OK, s1) \<Rightarrow>
          (case run_steps steps s1 of
             None \<Rightarrow> None
           | Some (r, n, s2) \<Rightarrow> Some (r, Suc n, s2)))"

text \<open>
  The write of one word to the DRW register, with the trace line that \<open>memStore\<close> logs
  before it, and the writes that the spec lists for \<open>memStore\<close>: TAR once, then DRW once
  for each of the \<open>count\<close> words, in order.
\<close>

definition drw_write :: "u32 \<Rightarrow> u32 \<Rightarrow> armdebug \<Rightarrow> (status \<times> armdebug) option" where
  "drw_write addr d s = apWrite 0 MEM_DRW d (log LOG_TRACE (MEM_Store addr d) s)"

definition store_steps ::
  "u32 \<Rightarrow> buffer \<Rightarrow> nat \<Rightarrow> (armdebug \<Rightarrow> (status \<times> armdebug) option) list" where
  "store_steps addr data count =
     apWrite 0 MEM_TAR addr # map (\<lambda>j. drw_write (addr + of_nat j) (data j)) [0..<count]"

text \<open>
  The buffer 0x11, 0x22, 0x33, and a target that answers three requests with OK (the
  writes of SELECT, TAR and the first word) and the fourth with FAULT.
\<close>

definition store_buffer :: buffer where
  "store_buffer i = (if i = 0 then 0x11 else if i = 1 then 0x22 else 0x33)"

definition store_fault_line :: "nat \<Rightarrow> bool" where
  "store_fault_line k = (k = 0 \<or> k = 3 \<or> k = 6 \<or> k = 11)"

subsection \<open>Power-up\<close>

text \<open>\<open>powered d\<close>: the CTRL/STAT value \<open>d\<close> has both power-up acknowledge bits set.\<close>

definition powered :: "u32 \<Rightarrow> bool" where
  "powered d = (d AND (CDBGPWRUPACK OR CSYSPWRUPACK) = (CDBGPWRUPACK OR CSYSPWRUPACK))"

text \<open>
  A target that answers the write of CTRL/STAT with OK and then four reads with OK, the
  word 0 and the parity bit 0: it never acknowledges the power-up request.
\<close>

definition unpowered_line :: "nat \<Rightarrow> bool" where
  "unpowered_line k = (k = 0 \<or> k = 3 \<or> k = 39 \<or> k = 75 \<or> k = 111)"

text \<open>
  A whole run of \<open>begin\<close> against a target that never acknowledges power-up. The samples
  that are high: the OK of the IDCODE read at 0 and the set bits of the IDCODE 0x2BA01477
  from 3 on (its parity bit, at 35, is 0); the OK of the CTRL/STAT write at 36; the OK of
  the four CTRL/STAT reads at 39, 75, 111 and 147, each followed by the word 0 and the
  parity bit 0; the OK of the SELECT write at 183; the OK of the IDR read at 186, its word
  1 at 189 and its parity bit at 221; the OK of the SELECT write at 222 and of the CSW
  write at 225.
\<close>

definition never_powered_line :: "nat \<Rightarrow> bool" where
  "never_powered_line k =
     (k \<in> set [0, 3, 4, 5, 7, 8, 9, 13, 15, 24, 26, 27, 28, 30, 32, 36, 39, 75, 111, 147,
                183, 186, 189, 221, 222, 225])"

text \<open>A target that answers ten requests with WAIT and the eleventh with OK.\<close>

definition ten_waits_line :: "nat \<Rightarrow> bool" where
  "ten_waits_line k = (if k < 30 then k mod 3 = 1 else k = 30)"

section \<open>Parity and header\<close>

lemma odd_length_filter_xor:
  "odd (length (filter (\<lambda>i. p i \<noteq> q i) xs)) =
     (odd (length (filter p xs)) \<noteq> odd (length (filter q xs)))"
  by (induction xs) auto

lemma popcount_xor: "odd (popcount (a XOR b)) = (odd (popcount a) \<noteq> odd (popcount b))"
  unfolding popcount_def bit_xor_iff by (rule odd_length_filter_xor)

lemma upt_split: "k \<le> n \<Longrightarrow> [0..<n] = [0..<k] @ [k..<n]"
  using upt_add_eq_append [of 0 k "n - k"] by simp

lemma popcount_low:
  assumes "k \<le> 32"
  shows "popcount (w AND mask k) = length (filter (bit w) [0..<k])"
proof -
  have "filter (bit (w AND mask k)) [0..<k] = filter (bit w) [0..<k]"
    by (rule filter_cong) (auto simp: bit_and_iff bit_mask_iff dest: bit_imp_le_length)
  moreover have "filter (bit (w AND mask k)) [k..<32] = []"
    by (auto simp del: upt_rec_numeral simp: filter_empty_conv bit_and_iff bit_mask_iff)
  ultimately show ?thesis
    unfolding popcount_def upt_split [OF assms] by simp
qed

lemma popcount_high:
  assumes "k \<le> 32"
  shows "popcount (drop_bit k w) = length (filter (bit w) [k..<32])"
proof -
  have hi: "filter (bit (drop_bit k w)) [32 - k..<32] = []"
    using assms
    by (auto simp del: upt_rec_numeral simp: filter_empty_conv bit_drop_bit_eq
        dest!: bit_imp_le_length)
  have "[k..<32] = map (\<lambda>i. i + k) [0..<32 - k]"
    using assms by (simp del: upt_rec_numeral add: map_add_upt)
  then have "length (filter (bit w) [k..<32]) =
      length (filter (\<lambda>i. bit w (i + k)) [0..<32 - k])"
    by (simp del: upt_rec_numeral add: filter_map comp_def)
  also have "filter (\<lambda>i. bit w (i + k)) [0..<32 - k] =
      filter (bit (drop_bit k w)) [0..<32 - k]"
    by (rule filter_cong) (auto simp: bit_drop_bit_eq add.commute)
  finally show ?thesis
    unfolding popcount_def upt_split [of "32 - k" 32, simplified] using hi by simp
qed

lemma popcount_split:
  assumes "k \<le> 32"
  shows "popcount w = popcount (w AND mask k) + popcount (drop_bit k w)"
proof -
  have "popcount w = length (filter (bit w) [0..<k]) + length (filter (bit w) [k..<32])"
    unfolding popcount_def upt_split [OF assms] by simp
  then show ?thesis
    by (simp only: popcount_low [OF assms] popcount_high [OF assms])
qed

lemma fold_half_parity:
  "k \<le> 32 \<Longrightarrow> odd (popcount (fold_half k w)) = odd (popcount w)"
  by (simp add: fold_half_def popcount_xor popcount_split [of k w])

lemma fold_half_bound:
  assumes "drop_bit (2 * k) w = 0"
  shows "drop_bit k (fold_half k w) = 0"
proof (rule bit_eqI)
  fix n
  have "bit (drop_bit (2 * k) w) n = bit (0 :: u32) n"
    by (simp only: assms)
  then have "\<not> bit w (2 * k + n)"
    by (simp add: bit_drop_bit_eq)
  moreover have "2 * k + n = k + (k + n)"
    by simp
  ultimately have "\<not> bit w (k + (k + n))"
    by simp
  then show "bit (drop_bit k (fold_half k w)) n = bit (0 :: u32) n"
    by (auto simp: bit_drop_bit_eq fold_half_def bit_xor_iff bit_and_iff bit_mask_iff
        algebra_simps)
qed

lemma evenParity_fold:
  "evenParity w =
     (fold_half 1 (fold_half 2 (fold_half 4 (fold_half 8 (fold_half 16 w)))) \<noteq> 0)"
  by (simp add: evenParity_def fold_half_def Let_def mask_numeral)

lemma one_bit_word:
  assumes "drop_bit 1 (w :: u32) = 0"
  shows "(w \<noteq> 0) = odd (popcount w)"
proof -
  have hi: "\<not> bit w (Suc n)" for n
  proof -
    have "bit (drop_bit 1 w) n = bit (0 :: u32) n"
      by (simp only: assms)
    then show ?thesis by (simp add: bit_drop_bit_eq)
  qed
  have "filter (bit w) [Suc 0..<32] = []"
    unfolding filter_empty_conv
  proof
    fix i assume "i \<in> set [Suc 0..<32]"
    then have "0 < i" by (simp del: upt_rec_numeral)
    then obtain j where "i = Suc j" by (cases i) auto
    then show "\<not> bit w i" using hi by simp
  qed
  then have "odd (popcount w) = bit w 0"
    unfolding popcount_def upt_split [of "Suc 0" 32, simplified] by simp
  moreover have "(w \<noteq> 0) = bit w 0"
  proof
    assume "w \<noteq> 0"
    then obtain n where "bit w n" by (auto simp: bit_eq_iff)
    then show "bit w 0" using hi by (cases n) auto
  next
    assume "bit w 0"
    then show "w \<noteq> 0" by auto
  qed
  ultimately show ?thesis by simp
qed

lemma evenParity_odd_popcount: "evenParity w = odd (popcount w)"
proof -
  let ?w1 = "fold_half 16 w"
  let ?w2 = "fold_half 8 ?w1"
  let ?w3 = "fold_half 4 ?w2"
  let ?w4 = "fold_half 2 ?w3"
  let ?w5 = "fold_half 1 ?w4"
  have "drop_bit (2 * 16) w = 0" by simp
  then have "drop_bit 16 ?w1 = 0" by (rule fold_half_bound)
  then have "drop_bit 8 ?w2 = 0" using fold_half_bound [of 8 ?w1] by simp
  then have "drop_bit 4 ?w3 = 0" using fold_half_bound [of 4 ?w2] by simp
  then have "drop_bit 2 ?w4 = 0" using fold_half_bound [of 2 ?w3] by simp
  then have "drop_bit 1 ?w5 = 0" using fold_half_bound [of 1 ?w4] by simp
  then have "(?w5 \<noteq> 0) = odd (popcount ?w5)" by (rule one_bit_word)
  then show ?thesis
    by (simp only: evenParity_fold) (simp add: fold_half_parity)
qed

lemma popcount_card: "popcount w = card {n. bit w n}"
proof -
  have "{n. bit w n} = set (filter (bit w) [0..<32])"
    by (auto simp del: upt_rec_numeral dest: bit_imp_le_length)
  moreover have "distinct (filter (bit w) [0..<32])"
    by (simp del: upt_rec_numeral)
  ultimately show ?thesis
    unfolding popcount_def by (simp only: distinct_card)
qed

text \<open>
  C4. For every 32-bit word, \<open>evenParity\<close> is 1 exactly when the word has an odd number of
  set bits: the XOR folding over 16, 8, 4, 2 and 1 bits computes the population count
  modulo 2, the population count being the number of positions whose bit is set.
\<close>

theorem evenParity_is_popcount_parity:
  "evenParity w = odd (popcount w) \<and>
   of_bool (evenParity w) = popcount w mod 2 \<and>
   popcount w = card {n. bit w n}"
proof -
  have "evenParity w = odd (popcount w)"
    by (rule evenParity_odd_popcount)
  moreover from this have "of_bool (evenParity w) = popcount w mod 2"
    by (cases "even (popcount w)") (simp_all add: odd_iff_mod_2_eq_one)
  ultimately show ?thesis
    using popcount_card by blast
qed

lemma and_1_neq_0: "((w :: u32) AND 1 \<noteq> 0) = bit w 0"
  by (simp add: and_one_eq mod_2_eq_odd bit_0)

lemma xor_of_bool: "((of_bool a :: u32) XOR of_bool b) = of_bool (a \<noteq> b)"
  by (cases a; cases b) simp_all

text \<open>
  C5. For every address and every \<open>APnDP\<close> and \<open>RnW\<close>, the header byte has bit 0 set
  (start), bit 1 equal to \<open>APnDP\<close>, bit 2 equal to \<open>RnW\<close>, bits 3 and 4 equal to bits 2 and
  3 of the address, bit 5 equal to \<open>APnDP\<close> XOR \<open>RnW\<close> XOR address bit 2 XOR address bit 3,
  bit 6 clear (stop) and bit 7 set (park).
\<close>

theorem packHeader_bits:
  "bit (packHeader addr APnDP RnW) 0 \<and>
   bit (packHeader addr APnDP RnW) 1 = APnDP \<and>
   bit (packHeader addr APnDP RnW) 2 = RnW \<and>
   bit (packHeader addr APnDP RnW) 3 = bit addr 2 \<and>
   bit (packHeader addr APnDP RnW) 4 = bit addr 3 \<and>
   bit (packHeader addr APnDP RnW) 5 = (((APnDP \<noteq> RnW) \<noteq> bit addr 2) \<noteq> bit addr 3) \<and>
   \<not> bit (packHeader addr APnDP RnW) 6 \<and>
   bit (packHeader addr APnDP RnW) 7"
proof -
  have dbl: "n < 31 \<Longrightarrow> bit (addr * 2) (Suc n) = bit addr n" for n
    using bit_push_bit_iff [of 1 addr "Suc n"] by auto
  have b3: "bit (addr * 2) 3 = bit addr 2" and b4: "bit (addr * 2) 4 = bit addr 3"
    using dbl [of 2] dbl [of 3] by simp_all
  show ?thesis
    unfolding packHeader_def Let_def and_1_neq_0 xor_of_bool
    by (simp add: bit_simps bit_of_bool_iff bit_drop_bit_eq) (auto simp: b3 b4)
qed

section \<open>The wire layer in closed form\<close>

lemma emit_fields [simp]:
  "clockPin (emit es ms k s) = clockPin s"
  "dataPin (emit es ms k s) = dataPin s"
  "logLevel (emit es ms k s) = logLevel s"
  "cache_select (emit es ms k s) = cache_select s"
  "line (emit es ms k s) = line s"
  "serial (emit es ms k s) = serial s"
  "sampled (emit es ms k s) = sampled s + k"
  "gpio (emit es ms k s) = gpio s @ es"
  "console (emit es ms k s) = console s @ ms"
  by (simp_all add: emit_def)

lemma emit_emit [simp]:
  "emit es2 ms2 k2 (emit es1 ms1 k1 s) = emit (es1 @ es2) (ms1 @ ms2) (k1 + k2) s"
  by (simp add: emit_def)

lemma emit_nil [simp]: "emit [] [] 0 s = s"
  by (simp add: emit_def)

lemma emit_cache [simp]:
  "emit es ms k (s\<lparr>cache_select := v\<rparr>) = (emit es ms k s)\<lparr>cache_select := v\<rparr>"
  by (simp add: emit_def)

lemma printed_emit [simp]: "printed level m (emit es ms k s) = printed level m s"
  by (simp add: printed_def)

lemma printed_cache [simp]: "printed level m (s\<lparr>cache_select := v\<rparr>) = printed level m s"
  by (simp add: printed_def)

lemma log_emit: "log level m s = emit [] (printed level m s) 0 s"
  by (simp add: log_def printed_def emit_def)

lemma digitalWrite_emit: "digitalWrite pin v s = emit [DigitalWrite pin v] [] 0 s"
  by (simp add: digitalWrite_def emit_def)

lemma pinMode_emit: "pinMode pin m s = emit [PinMode pin m] [] 0 s"
  by (simp add: pinMode_def emit_def)

lemma digitalRead_emit:
  "digitalRead pin s = (line s (sampled s), emit [DigitalRead pin (line s (sampled s))] [] 1 s)"
  by (simp add: digitalRead_def emit_def)

lemma wireWrite_loop_emit:
  "wireWrite_loop d n s = emit (write_events (clockPin s) (dataPin s) d n) [] 0 s"
  by (induction n arbitrary: d s) (simp_all add: digitalWrite_emit)

lemma wireWrite_emit:
  "wireWrite d n s =
     emit (write_events (clockPin s) (dataPin s) d n) (printed LOG_TRACE (SWD_Write d n) s) 0 s"
  by (simp add: wireWrite_def wireWrite_loop_emit log_emit)

lemma wireWriteTurnaround_emit:
  "wireWriteTurnaround s =
     emit (write_trn_events (clockPin s) (dataPin s)) (printed LOG_TRACE SWD_Write_trn s) 0 s"
  by (simp add: wireWriteTurnaround_def Let_def log_emit digitalWrite_emit pinMode_emit
      write_trn_events_def)

lemma wireReadTurnaround_emit:
  "wireReadTurnaround s =
     emit (read_trn_events (clockPin s) (dataPin s)) (printed LOG_TRACE SWD_Read_trn s) 0 s"
  by (simp add: wireReadTurnaround_def Let_def log_emit digitalWrite_emit pinMode_emit
      read_trn_events_def)

lemma wireRead_loop_state:
  "snd (wireRead_loop n m r s) =
     emit (read_events (clockPin s) (dataPin s) (line s) (sampled s) n) [] n s"
  by (induction n arbitrary: m r s) (simp_all add: digitalRead_emit digitalWrite_emit)

lemma wireRead_loop_bits:
  "bit (fst (wireRead_loop n (2 ^ j) r s)) i =
     (bit r i \<or> (j \<le> i \<and> i < j + n \<and> i < 32 \<and> line s (sampled s + (i - j))))"
proof (induction n arbitrary: j r s)
  case 0
  then show ?case by auto
next
  case (Suc n)
  have shift: "(2::u32) ^ j * 2 = 2 ^ Suc j"
    by simp
  have one: "bit ((2::u32) ^ j) i' = (i' = j \<and> i' < 32)" for i'
    by (auto simp: bit_exp_iff)
  have step: "fst (wireRead_loop (Suc n) (2 ^ j) r s) =
      fst (wireRead_loop n (2 ^ Suc j) (if line s (sampled s) then r OR 2 ^ j else r)
        (emit [DigitalRead (dataPin s) (line s (sampled s)),
               DigitalWrite (clockPin s) False, DigitalWrite (clockPin s) True] [] 1 s))"
    by (simp add: digitalRead_emit digitalWrite_emit shift del: power_Suc)
  consider (lt) "i < j" | (eq) "i = j" | (gt) m where "i = Suc j + m"
    by (metis add_Suc less_imp_Suc_add linorder_neqE_nat)
  then show ?case
  proof cases
    case lt
    then show ?thesis unfolding step Suc.IH by (simp add: bit_or_iff one)
  next
    case eq
    then show ?thesis unfolding step Suc.IH by (auto simp: bit_or_iff one)
  next
    case gt
    then show ?thesis unfolding step Suc.IH by (auto simp: bit_or_iff one)
  qed
qed

lemma received_bits:
  "bit (received f k n) i = (i < n \<and> i < 32 \<and> f (k + i))"
  by (auto simp: received_def bit_horner_sum_bit_iff simp del: upt_rec_numeral)

lemma wireRead_emit:
  "wireRead n s =
     (received (line s) (sampled s) n,
      emit (read_events (clockPin s) (dataPin s) (line s) (sampled s) n)
        (printed LOG_TRACE (SWD_Read (received (line s) (sampled s) n) n) s) n s)"
proof -
  have "fst (wireRead_loop n 1 0 s) = received (line s) (sampled s) n"
    using wireRead_loop_bits [of n 0 0 s]
    by (intro bit_eqI) (auto simp: received_bits)
  then show ?thesis
    using wireRead_loop_state [of n 1 0 s]
    by (simp add: wireRead_def split_beta log_emit)
qed

lemma request_ack:
  "wireRead 3 (wireReadTurnaround (wireWrite (ucast header) 8 s)) =
     (received (line s) (sampled s) 3, request header s)"
  by (simp add: request_def wireRead_emit wireReadTurnaround_emit wireWrite_emit)

lemma request_emit: "\<exists>es ms. request header s = emit es ms 3 s"
  by (auto simp: request_def wireRead_emit wireReadTurnaround_emit wireWrite_emit)

lemma idle_emit: "\<exists>es ms. idle s = emit es ms 0 s"
  by (auto simp: idle_def wireWriteTurnaround_emit wireWrite_emit)

lemma request_fields [simp]:
  "clockPin (request header s) = clockPin s"
  "dataPin (request header s) = dataPin s"
  "logLevel (request header s) = logLevel s"
  "cache_select (request header s) = cache_select s"
  "line (request header s) = line s"
  "serial (request header s) = serial s"
  "sampled (request header s) = sampled s + 3"
  using request_emit [of header s] by auto

lemma idle_fields [simp]:
  "clockPin (idle s) = clockPin s"
  "dataPin (idle s) = dataPin s"
  "logLevel (idle s) = logLevel s"
  "cache_select (idle s) = cache_select s"
  "line (idle s) = line s"
  "serial (idle s) = serial s"
  "sampled (idle s) = sampled s"
  using idle_emit [of s] by auto

section \<open>Debug port transactions\<close>

lemma data_phase_emit: "\<exists>es ms. data_phase s = emit es ms 33 s"
  by (auto simp: data_phase_def wireRead_emit)

lemma data_phase_fields [simp]:
  "clockPin (data_phase s) = clockPin s"
  "dataPin (data_phase s) = dataPin s"
  "logLevel (data_phase s) = logLevel s"
  "cache_select (data_phase s) = cache_select s"
  "line (data_phase s) = line s"
  "serial (data_phase s) = serial s"
  "sampled (data_phase s) = sampled s + 33"
  using data_phase_emit [of s] by auto

lemma log_fields [simp]:
  "clockPin (log l m s) = clockPin s"
  "dataPin (log l m s) = dataPin s"
  "logLevel (log l m s) = logLevel s"
  "cache_select (log l m s) = cache_select s"
  "line (log l m s) = line s"
  "serial (log l m s) = serial s"
  "sampled (log l m s) = sampled s"
  "gpio (log l m s) = gpio s"
  by (simp_all add: log_emit)

lemma wireWrite_fields [simp]:
  "clockPin (wireWrite d n s) = clockPin s"
  "dataPin (wireWrite d n s) = dataPin s"
  "logLevel (wireWrite d n s) = logLevel s"
  "cache_select (wireWrite d n s) = cache_select s"
  "line (wireWrite d n s) = line s"
  "serial (wireWrite d n s) = serial s"
  "sampled (wireWrite d n s) = sampled s"
  by (simp_all add: wireWrite_emit)

lemma wireWriteTurnaround_fields [simp]:
  "clockPin (wireWriteTurnaround s) = clockPin s"
  "dataPin (wireWriteTurnaround s) = dataPin s"
  "logLevel (wireWriteTurnaround s) = logLevel s"
  "cache_select (wireWriteTurnaround s) = cache_select s"
  "line (wireWriteTurnaround s) = line s"
  "serial (wireWriteTurnaround s) = serial s"
  "sampled (wireWriteTurnaround s) = sampled s"
  by (simp_all add: wireWriteTurnaround_emit)

lemma idle_events_eq: "write_events cp dp 0 8 = idle_events cp dp"
  by (simp add: idle_events_def eval_nat_numeral)

lemma idle_gpio:
  "gpio (idle s) =
     gpio s @ write_trn_events (clockPin s) (dataPin s) @ idle_events (clockPin s) (dataPin s)"
  by (simp add: idle_def wireWriteTurnaround_emit wireWrite_emit idle_events_eq)

lemmas wire_closed_forms =
  request_def data_phase_def idle_def wireRead_emit wireWrite_emit wireReadTurnaround_emit
  wireWriteTurnaround_emit

lemma dpWrite_body:
  "(case wireRead 3 (wireReadTurnaround (wireWrite (ucast (packHeader addr APnDP False)) 8 s)) of
      (ack, s1) \<Rightarrow>
        if ack = 1 then
          Some (OK, wireWrite 0 8 (wireWrite (of_bool (evenParity data)) 1
                      (wireWrite data 32 (wireWriteTurnaround s1))))
        else if ack = 2 then
          (if retries - 1 \<noteq> 0
           then f addr APnDP data (retries - 1 - 1) (wireWrite 0 8 (wireWriteTurnaround s1))
           else Some (Failed WaitTimeout,
                  log LOG_ERROR (WAIT_timeout_during_write addr APnDP data)
                    (wireWrite 0 8 (wireWriteTurnaround s1))))
        else if ack = 4 then
          Some (Failed ProtocolFault,
                log LOG_ERROR (FAULT_during_write addr APnDP data)
                  (wireWrite 0 8 (wireWriteTurnaround s1)))
        else
          Some (Failed ProtocolError,
                log LOG_ERROR (PROTOCOL_ERROR_during_write ack addr APnDP data)
                  (wireWrite 0 8 (wireWriteTurnaround s1)))) =
   dpWrite_step (f addr APnDP data) addr APnDP data retries s"
  by (simp add: dpWrite_step_def wire_closed_forms)

lemma dpRead_body:
  "(case wireRead 3 (wireReadTurnaround (wireWrite (ucast (packHeader addr APnDP True)) 8 s)) of
      (ack, s1) \<Rightarrow>
        if ack = 1 then
          (case wireRead 32 s1 of (data, s2) \<Rightarrow>
           case wireRead 1 s2 of (p, s3) \<Rightarrow>
             if p \<noteq> of_bool (evenParity data) then
               Some (ReadFailed ParityError (Some data),
                     log LOG_ERROR (PARITY_ERROR_during_read addr APnDP data)
                       (wireWrite 0 8 (wireWriteTurnaround s3)))
             else
               Some (Read data,
                     log LOG_TRACE (DP_Read addr APnDP data)
                       (wireWrite 0 8 (wireWriteTurnaround s3))))
        else if ack = 2 then
          (if retries - 1 \<noteq> 0
           then f addr APnDP (retries - 1 - 1) (wireWrite 0 8 (wireWriteTurnaround s1))
           else Some (ReadFailed WaitTimeout None,
                  log LOG_ERROR (WAIT_timeout_during_read addr APnDP)
                    (wireWrite 0 8 (wireWriteTurnaround s1))))
        else if ack = 4 then
          Some (ReadFailed ProtocolFault None,
                log LOG_ERROR (FAULT_during_read addr APnDP)
                  (wireWrite 0 8 (wireWriteTurnaround s1)))
        else
          Some (ReadFailed ProtocolError None,
                log LOG_ERROR (PROTOCOL_ERROR_during_read ack addr APnDP)
                  (wireWrite 0 8 (wireWriteTurnaround s1)))) =
   dpRead_step (f addr APnDP) addr APnDP retries s"
  by (simp add: dpRead_step_def wire_closed_forms add.assoc)

lemma dpWrite_loop_unfold:
  "dpWrite_loop addr APnDP data retries s =
     dpWrite_step (dpWrite_loop addr APnDP data) addr APnDP data retries s"
  by (subst dpWrite_loop.simps) (rule dpWrite_body)

lemma dpRead_loop_unfold:
  "dpRead_loop addr APnDP retries s =
     dpRead_step (dpRead_loop addr APnDP) addr APnDP retries s"
  by (subst dpRead_loop.simps) (rule dpRead_body)

section \<open>The retry loops\<close>

lemma odd_pred_neq_0: "even (retries :: u32) \<Longrightarrow> retries - 1 \<noteq> 0"
  by (metis even_zero even_diff odd_one even_add)

lemma same_link_refl [simp]: "same_link s s"
  by (simp add: same_link_def)

lemma same_link_trans: "same_link s s1 \<Longrightarrow> same_link s1 s2 \<Longrightarrow> same_link s s2"
  by (simp add: same_link_def)

lemma same_link_steps [simp]:
  "same_link s (request header s)"
  "same_link s (idle s)"
  "same_link s (data_phase s)"
  "same_link s (log l m s)"
  "same_link s (wireWrite d n s)"
  "same_link s (wireWriteTurnaround s)"
  "same_link s (emit es ms k s)"
  by (simp_all add: same_link_def)

text \<open>One attempt that is answered WAIT, with an even count of retries left.\<close>

lemma dpWrite_loop_wait:
  assumes "received (line s) (sampled s) 3 = 2" and "even retries"
  shows "dpWrite_loop addr APnDP data retries s =
           dpWrite_loop addr APnDP data (retries - 2)
             (idle (request (packHeader addr APnDP False) s))"
proof -
  have "retries - 1 - 1 = retries - 2" by simp
  then show ?thesis
    using assms odd_pred_neq_0 [OF assms(2)]
    by (subst dpWrite_loop_unfold) (simp add: dpWrite_step_def)
qed

lemma dpRead_loop_wait:
  assumes "received (line s) (sampled s) 3 = 2" and "even retries"
  shows "dpRead_loop addr APnDP retries s =
           dpRead_loop addr APnDP (retries - 2)
             (idle (request (packHeader addr APnDP True) s))"
proof -
  have "retries - 1 - 1 = retries - 2" by simp
  then show ?thesis
    using assms odd_pred_neq_0 [OF assms(2)]
    by (subst dpRead_loop_unfold) (simp add: dpRead_step_def)
qed

text \<open>\<open>n\<close> attempts answered WAIT in a row.\<close>

lemma attempts_fields [simp]:
  "line (((\<lambda>s. idle (request header s)) ^^ n) s) = line s"
  "sampled (((\<lambda>s. idle (request header s)) ^^ n) s) = sampled s + 3 * n"
  "same_link s (((\<lambda>s. idle (request header s)) ^^ n) s)"
  by (induction n) (simp_all add: same_link_def)

lemma dpWrite_loop_waits:
  assumes "\<forall>i<n. received (line s) (sampled s + 3 * i) 3 = 2" and "even retries"
  shows "dpWrite_loop addr APnDP data retries s =
           dpWrite_loop addr APnDP data (retries - 2 * of_nat n)
             (((\<lambda>s. idle (request (packHeader addr APnDP False) s)) ^^ n) s)"
  using assms
proof (induction n)
  case 0
  then show ?case by simp
next
  case (Suc n)
  let ?s = "((\<lambda>s. idle (request (packHeader addr APnDP False) s)) ^^ n) s"
  have "received (line ?s) (sampled ?s) 3 = 2"
    using Suc.prems by simp
  moreover have "even (retries - 2 * of_nat n)"
    using Suc.prems by simp
  ultimately have "dpWrite_loop addr APnDP data (retries - 2 * of_nat n) ?s =
      dpWrite_loop addr APnDP data (retries - 2 * of_nat n - 2)
        (idle (request (packHeader addr APnDP False) ?s))"
    by (rule dpWrite_loop_wait)
  then show ?case
    using Suc by (simp add: algebra_simps)
qed

lemma dpRead_loop_waits:
  assumes "\<forall>i<n. received (line s) (sampled s + 3 * i) 3 = 2" and "even retries"
  shows "dpRead_loop addr APnDP retries s =
           dpRead_loop addr APnDP (retries - 2 * of_nat n)
             (((\<lambda>s. idle (request (packHeader addr APnDP True) s)) ^^ n) s)"
  using assms
proof (induction n)
  case 0
  then show ?case by simp
next
  case (Suc n)
  let ?s = "((\<lambda>s. idle (request (packHeader addr APnDP True) s)) ^^ n) s"
  have "received (line ?s) (sampled ?s) 3 = 2"
    using Suc.prems by simp
  moreover have "even (retries - 2 * of_nat n)"
    using Suc.prems by simp
  ultimately have "dpRead_loop addr APnDP (retries - 2 * of_nat n) ?s =
      dpRead_loop addr APnDP (retries - 2 * of_nat n - 2)
        (idle (request (packHeader addr APnDP True) ?s))"
    by (rule dpRead_loop_wait)
  then show ?case
    using Suc by (simp add: algebra_simps)
qed

text \<open>
  The outcome of a transaction whose first \<open>n\<close> attempts are answered WAIT and whose
  next attempt is answered otherwise: for any \<open>n\<close>, the transaction ends with that attempt.
\<close>

lemma dpWrite_step_outcome:
  assumes "received (line s) (sampled s) 3 \<noteq> 2"
  shows "\<exists>s'. dpWrite_step continue addr APnDP data retries s =
             Some (write_outcome (received (line s) (sampled s) 3), s') \<and>
           same_link s s' \<and> sampled s' = sampled s + 3"
  using assms by (simp add: dpWrite_step_def write_outcome_def same_link_def)

lemma dpRead_step_outcome:
  assumes "received (line s) (sampled s) 3 \<noteq> 2"
  shows "\<exists>s' pre. dpRead_step continue addr APnDP retries s =
             Some (read_outcome (line s) (sampled s), s') \<and>
           same_link s s' \<and>
           sampled s' = sampled s + (if received (line s) (sampled s) 3 = 1 then 36 else 3) \<and>
           gpio s' = pre @ write_trn_events (clockPin s) (dataPin s)
                         @ idle_events (clockPin s) (dataPin s)"
  using assms by (simp add: dpRead_step_def read_outcome_def same_link_def idle_gpio)

lemma dpWrite_outcome:
  assumes "\<forall>i<n. received (line s) (sampled s + 3 * i) 3 = 2"
    and "received (line s) (sampled s + 3 * n) 3 \<noteq> 2"
  shows "\<exists>s'. dpWrite addr APnDP data s =
             Some (write_outcome (received (line s) (sampled s + 3 * n) 3), s') \<and>
           same_link s s' \<and> sampled s' = sampled s + 3 * n + 3"
proof -
  let ?s0 = "log LOG_TRACE (DP_Write addr APnDP data) s"
  let ?sn = "((\<lambda>s. idle (request (packHeader addr APnDP False) s)) ^^ n) ?s0"
  have "dpWrite addr APnDP data s = dpWrite_loop addr APnDP data (10 - 2 * of_nat n) ?sn"
    using assms(1) dpWrite_loop_waits [of n ?s0 10 addr APnDP data]
    by (simp add: dpWrite_def)
  also have "\<dots> = dpWrite_step (dpWrite_loop addr APnDP data) addr APnDP data
      (10 - 2 * of_nat n) ?sn"
    by (rule dpWrite_loop_unfold)
  finally have run: "dpWrite addr APnDP data s =
      dpWrite_step (dpWrite_loop addr APnDP data) addr APnDP data (10 - 2 * of_nat n) ?sn" .
  have "received (line ?sn) (sampled ?sn) 3 \<noteq> 2"
    using assms(2) by simp
  from dpWrite_step_outcome [OF this, of "dpWrite_loop addr APnDP data" addr APnDP data
      "10 - 2 * of_nat n"]
  obtain s' where "dpWrite addr APnDP data s =
        Some (write_outcome (received (line ?sn) (sampled ?sn) 3), s')"
    and "same_link ?sn s'" and "sampled s' = sampled ?sn + 3"
    unfolding run by blast
  moreover have "same_link s ?sn"
    using same_link_trans [OF same_link_steps(4) attempts_fields(3)] .
  ultimately show ?thesis
    by (auto intro: same_link_trans)
qed

lemma dpRead_outcome:
  assumes "\<forall>i<n. received (line s) (sampled s + 3 * i) 3 = 2"
    and "received (line s) (sampled s + 3 * n) 3 \<noteq> 2"
  shows "\<exists>s' pre. dpRead addr APnDP s = Some (read_outcome (line s) (sampled s + 3 * n), s') \<and>
           same_link s s' \<and>
           sampled s' = sampled s + 3 * n +
             (if received (line s) (sampled s + 3 * n) 3 = 1 then 36 else 3) \<and>
           gpio s' = pre @ write_trn_events (clockPin s) (dataPin s)
                         @ idle_events (clockPin s) (dataPin s)"
proof -
  let ?sn = "((\<lambda>s. idle (request (packHeader addr APnDP True) s)) ^^ n) s"
  have "dpRead addr APnDP s = dpRead_loop addr APnDP (10 - 2 * of_nat n) ?sn"
    using assms(1) dpRead_loop_waits [of n s 10 addr APnDP]
    by (simp add: dpRead_def)
  also have "\<dots> = dpRead_step (dpRead_loop addr APnDP) addr APnDP (10 - 2 * of_nat n) ?sn"
    by (rule dpRead_loop_unfold)
  finally have run: "dpRead addr APnDP s =
      dpRead_step (dpRead_loop addr APnDP) addr APnDP (10 - 2 * of_nat n) ?sn" .
  have "received (line ?sn) (sampled ?sn) 3 \<noteq> 2"
    using assms(2) by simp
  from dpRead_step_outcome [OF this, of "dpRead_loop addr APnDP" addr APnDP "10 - 2 * of_nat n"]
  obtain s' pre where res: "dpRead addr APnDP s = Some (read_outcome (line ?sn) (sampled ?sn), s')"
    and link: "same_link ?sn s'"
    and pos: "sampled s' = sampled ?sn + (if received (line ?sn) (sampled ?sn) 3 = 1 then 36 else 3)"
    and tail: "gpio s' = pre @ write_trn_events (clockPin ?sn) (dataPin ?sn)
                       @ idle_events (clockPin ?sn) (dataPin ?sn)"
    unfolding run by blast
  have "same_link s s'"
    using same_link_trans [OF attempts_fields(3) link] .
  moreover have "clockPin ?sn = clockPin s" "dataPin ?sn = dataPin s"
    using attempts_fields(3) [where s = s and n = n] by (simp_all add: same_link_def)
  ultimately show ?thesis
    using res pos tail by simp
qed

section \<open>Acknowledged with WAIT for ever\<close>

lemma wait_for_ever_next:
  assumes "\<forall>i. received (line s) (sampled s + 3 * i) 3 = 2"
  shows "\<forall>i. received (line (idle (request header s)))
              (sampled (idle (request header s)) + 3 * i) 3 = 2"
proof
  fix i
  have "received (line s) (sampled s + 3 * Suc i) 3 = 2"
    using assms by blast
  then show "received (line (idle (request header s)))
      (sampled (idle (request header s)) + 3 * i) 3 = 2"
    by (simp add: add.assoc)
qed

lemma wait_for_ever_now:
  assumes "\<forall>i. received (line s) (sampled s + 3 * i) 3 = 2"
  shows "received (line s) (sampled s) 3 = 2"
  using assms [THEN spec, of 0] by simp

lemma dpWrite_loop_never:
  assumes "dpWrite_loop addr APnDP data retries s = Some y"
  shows "\<not> (even retries \<and> (\<forall>i. received (line s) (sampled s + 3 * i) 3 = 2))"
  using assms
proof (induction rule: dpWrite_loop.raw_induct [rotated 1, consumes 1, case_names step])
  case (step f addr APnDP data retries s y)
  show ?case
  proof
    assume inv: "even retries \<and> (\<forall>i. received (line s) (sampled s + 3 * i) 3 = 2)"
    then have ev: "even retries" and aw: "\<forall>i. received (line s) (sampled s + 3 * i) 3 = 2"
      by simp_all
    have "received (line s) (sampled s) 3 = 2"
      using aw by (rule wait_for_ever_now)
    moreover have "retries - 1 \<noteq> 0"
      using ev by (rule odd_pred_neq_0)
    moreover have "dpWrite_step (f addr APnDP data) addr APnDP data retries s = Some y"
      using step(2) unfolding dpWrite_body .
    ultimately have "f addr APnDP data (retries - 1 - 1)
        (idle (request (packHeader addr APnDP False) s)) = Some y"
      by (simp add: dpWrite_step_def)
    then have "\<not> (even (retries - 1 - 1) \<and>
        (\<forall>i. received (line (idle (request (packHeader addr APnDP False) s)))
          (sampled (idle (request (packHeader addr APnDP False) s)) + 3 * i) 3 = 2))"
      by (rule step(1))
    moreover have "even (retries - 1 - 1)"
      using ev by simp
    ultimately show False
      using wait_for_ever_next [OF aw] by blast
  qed
qed

lemma dpRead_loop_never:
  assumes "dpRead_loop addr APnDP retries s = Some y"
  shows "\<not> (even retries \<and> (\<forall>i. received (line s) (sampled s + 3 * i) 3 = 2))"
  using assms
proof (induction rule: dpRead_loop.raw_induct [rotated 1, consumes 1, case_names step])
  case (step f addr APnDP retries s y)
  show ?case
  proof
    assume inv: "even retries \<and> (\<forall>i. received (line s) (sampled s + 3 * i) 3 = 2)"
    then have ev: "even retries" and aw: "\<forall>i. received (line s) (sampled s + 3 * i) 3 = 2"
      by simp_all
    have "received (line s) (sampled s) 3 = 2"
      using aw by (rule wait_for_ever_now)
    moreover have "retries - 1 \<noteq> 0"
      using ev by (rule odd_pred_neq_0)
    moreover have "dpRead_step (f addr APnDP) addr APnDP retries s = Some y"
      using step(2) unfolding dpRead_body .
    ultimately have "f addr APnDP (retries - 1 - 1)
        (idle (request (packHeader addr APnDP True) s)) = Some y"
      by (simp add: dpRead_step_def)
    then have "\<not> (even (retries - 1 - 1) \<and>
        (\<forall>i. received (line (idle (request (packHeader addr APnDP True) s)))
          (sampled (idle (request (packHeader addr APnDP True) s)) + 3 * i) 3 = 2))"
      by (rule step(1))
    moreover have "even (retries - 1 - 1)"
      using ev by simp
    ultimately show False
      using wait_for_ever_next [OF aw] by blast
  qed
qed

lemma received_0 [simp]: "received f k 0 = 0"
  by (simp add: received_def)

lemma received_Suc: "received f k (Suc n) = of_bool (f k) + 2 * received f (Suc k) n"
proof -
  have "[k..<k + Suc n] = k # [Suc k..<Suc k + n]"
    by (simp add: upt_conv_Cons)
  then show ?thesis
    by (simp add: received_def)
qed

lemma received_3:
  "received f k 3 = of_bool (f k) + 2 * (of_bool (f (k + 1)) + 2 * of_bool (f (k + 2)))"
  by (simp add: numeral_3_eq_3 received_Suc)

lemma wait_line_ack: "received wait_line (3 * i) 3 = 2"
  by (simp add: received_3 wait_line_def mod_Suc)

text \<open>
  C1. When every acknowledge the wire shows is WAIT, \<open>dpWrite\<close> and \<open>dpRead\<close> do not
  return at all: each pass through the loop decrements \<open>retries\<close> twice, once in the WAIT
  case and once in the loop condition, so the condition tests the odd values 9, 7, 5, 3, 1
  and then, after the unsigned counter has wrapped, 4294967295, 4294967293 and so on, and
  never the value 0. The return of \<open>false\<close> after the loop is not reached.
\<close>

theorem dp_wait_for_ever_never_returns:
  assumes "\<forall>i. received (line s) (sampled s + 3 * i) 3 = 2"
  shows "dpWrite addr APnDP data s = None \<and> dpRead addr APnDP s = None"
proof -
  let ?s0 = "log LOG_TRACE (DP_Write addr APnDP data) s"
  have "dpWrite_loop addr APnDP data 10 ?s0 = None"
    using dpWrite_loop_never [of addr APnDP data 10 ?s0] assms
    by (cases "dpWrite_loop addr APnDP data 10 ?s0") auto
  moreover have "dpRead_loop addr APnDP 10 s = None"
    using dpRead_loop_never [of addr APnDP 10 s] assms
    by (cases "dpRead_loop addr APnDP 10 s") auto
  ultimately show ?thesis
    by (simp add: dpWrite_def dpRead_def)
qed

text \<open>
  An instance: on a fresh link whose target answers WAIT for ever, neither the write nor
  the read of CTRL/STAT returns.
\<close>

theorem dp_wait_for_ever_never_returns_witness:
  "(\<forall>i. received (line (fresh_link wait_line)) (sampled (fresh_link wait_line) + 3 * i) 3 = 2) \<and>
   dpWrite CTRLSTAT False 0 (fresh_link wait_line) = None \<and>
   dpRead CTRLSTAT False (fresh_link wait_line) = None"
proof -
  have "\<forall>i. received (line (fresh_link wait_line)) (sampled (fresh_link wait_line) + 3 * i) 3 = 2"
    by (simp add: fresh_link_def wait_line_ack)
  then show ?thesis
    using dp_wait_for_ever_never_returns [of "fresh_link wait_line" CTRLSTAT False 0] by blast
qed

text \<open>
  The other half of the claim holds: WAIT on the attempts 1 to 9 and OK on attempt 10 is
  a success. So is WAIT on the attempts 1 to \<open>n\<close> and OK on attempt \<open>n + 1\<close> for every
  \<open>n\<close>: the transaction goes on past ten attempts.
\<close>

lemma dp_ok_after_waits:
  assumes "\<forall>i<n. received (line s) (sampled s + 3 * i) 3 = 2"
    and "received (line s) (sampled s + 3 * n) 3 = 1"
  shows "\<exists>s'. dpWrite addr APnDP data s = Some (OK, s')"
    and "\<exists>s'. dpRead addr APnDP s = Some (read_outcome (line s) (sampled s + 3 * n), s')"
proof -
  have ack: "received (line s) (sampled s + 3 * n) 3 \<noteq> 2"
    using assms(2) by simp
  show "\<exists>s'. dpWrite addr APnDP data s = Some (OK, s')"
    using dpWrite_outcome [OF assms(1) ack, of addr APnDP data] assms(2)
    by (auto simp: write_outcome_def)
  show "\<exists>s'. dpRead addr APnDP s = Some (read_outcome (line s) (sampled s + 3 * n), s')"
    using dpRead_outcome [OF assms(1) ack, of addr APnDP] by blast
qed

section \<open>Reads that fail\<close>

lemma read_outcome_word:
  "case read_outcome f k of
     Read d \<Rightarrow> True
   | ReadFailed e w \<Rightarrow>
       if e = ParityError then
         \<exists>j. w = Some (received f j 32) \<and>
           received f (j + 32) 1 \<noteq> of_bool (evenParity (received f j 32))
       else w = None"
proof (cases "received f k 3 = 1 \<and>
    received f (k + 35) 1 \<noteq> of_bool (evenParity (received f (k + 3) 32))")
  case True
  then have out: "read_outcome f k = ReadFailed ParityError (Some (received f (k + 3) 32))"
    by (simp add: read_outcome_def)
  have "k + 3 + 32 = k + 35"
    by simp
  with True have "Some (received f (k + 3) 32) = Some (received f (k + 3) 32) \<and>
      received f (k + 3 + 32) 1 \<noteq> of_bool (evenParity (received f (k + 3) 32))"
    by (simp only: refl simp_thms)
  then have "\<exists>j. Some (received f (k + 3) 32) = Some (received f j 32) \<and>
      received f (j + 32) 1 \<noteq> of_bool (evenParity (received f j 32))"
    by (rule exI [of _ "k + 3"])
  then show ?thesis
    by (simp only: out rstatus.case if_True refl)
next
  case False
  then show ?thesis
    by (auto simp: read_outcome_def)
qed

lemma dpRead_loop_failure_word:
  assumes "dpRead_loop addr APnDP retries s = Some y"
  shows "case fst y of
           Read d \<Rightarrow> True
         | ReadFailed f w \<Rightarrow>
             if f = ParityError then
               \<exists>k. w = Some (received (line s) k 32) \<and>
                 received (line s) (k + 32) 1 \<noteq> of_bool (evenParity (received (line s) k 32))
             else w = None"
  using assms
proof (induction rule: dpRead_loop.raw_induct [rotated 1, consumes 1, case_names step])
  case (step f addr APnDP retries s y)
  have body: "dpRead_step (f addr APnDP) addr APnDP retries s = Some y"
    using step(2) unfolding dpRead_body .
  show ?case
  proof (cases "received (line s) (sampled s) 3 = 2")
    case True
    show ?thesis
    proof (cases "retries - 1 \<noteq> 0")
      case True
      with \<open>received (line s) (sampled s) 3 = 2\<close>
      have "f addr APnDP (retries - 1 - 1) (idle (request (packHeader addr APnDP True) s)) = Some y"
        using body by (simp add: dpRead_step_def)
      from step(1) [OF this] show ?thesis
        by (simp only: idle_fields request_fields)
    next
      case False
      with \<open>received (line s) (sampled s) 3 = 2\<close> have "fst y = ReadFailed WaitTimeout None"
        using body by (auto simp: dpRead_step_def)
      then show ?thesis
        by simp
    qed
  next
    case False
    then have "fst y = read_outcome (line s) (sampled s)"
      using body by (auto simp: dpRead_step_def read_outcome_def split: if_splits)
    then show ?thesis
      using read_outcome_word [of "line s" "sampled s"] by (simp only:)
  qed
qed

text \<open>
  C3, as the code has it. A read that returns \<open>false\<close> on a FAULT or an unrecognised
  acknowledge has not written the out-parameter. A read that returns \<open>false\<close> on a parity
  error has: \<open>data\<close> is assigned the 32 received bits before the parity bit is compared,
  so the out-parameter holds the received word whose parity check failed.
\<close>

theorem dpRead_failure_out_parameter:
  assumes "dpRead addr APnDP s = Some (ReadFailed f w, s')"
  shows "if f = ParityError then
           \<exists>k. w = Some (received (line s) k 32) \<and>
             received (line s) (k + 32) 1 \<noteq> of_bool (evenParity (received (line s) k 32))
         else w = None"
  using dpRead_loop_failure_word [of addr APnDP 10 s "(ReadFailed f w, s')"] assms
  by (simp add: dpRead_def)

lemma parity_fault_line_outcome:
  "read_outcome parity_fault_line 0 = ReadFailed ParityError (Some 1)"
proof -
  have "received parity_fault_line 0 3 = 1"
    by (simp add: received_3 parity_fault_line_def)
  moreover have "received parity_fault_line 3 32 = 1"
    by (simp add: eval_nat_numeral received_Suc parity_fault_line_def)
  moreover have "received parity_fault_line 35 1 = 0"
    by (simp add: received_Suc parity_fault_line_def)
  moreover have "evenParity 1"
    by (simp add: evenParity_def)
  ultimately show ?thesis
    by (simp add: read_outcome_def)
qed

lemma parity_fault_read:
  "\<exists>s'. dpRead addr APnDP (fresh_link parity_fault_line) =
          Some (ReadFailed ParityError (Some 1), s')"
proof -
  have "received (line (fresh_link parity_fault_line))
      (sampled (fresh_link parity_fault_line) + 3 * 0) 3 \<noteq> 2"
    by (simp add: fresh_link_def received_3 parity_fault_line_def)
  from dpRead_outcome [of 0, OF _ this, of addr APnDP] show ?thesis
    by (auto simp: fresh_link_def parity_fault_line_outcome)
qed

text \<open>
  An instance: the read of IDCODE on a line that carries OK, the word 1 and the parity
  bit 0 fails on the parity error, and the word it leaves in the out-parameter is the word
  received at sample 3.
\<close>

theorem dpRead_failure_out_parameter_witness:
  "\<exists>s'. dpRead IDCODE False (fresh_link parity_fault_line) =
          Some (ReadFailed ParityError (Some 1), s') \<and>
        (\<exists>k. Some (1 :: u32) = Some (received (line (fresh_link parity_fault_line)) k 32) \<and>
           received (line (fresh_link parity_fault_line)) (k + 32) 1
             \<noteq> of_bool (evenParity (received (line (fresh_link parity_fault_line)) k 32)))"
proof -
  obtain s' where run: "dpRead IDCODE False (fresh_link parity_fault_line) =
      Some (ReadFailed ParityError (Some 1), s')"
    using parity_fault_read by blast
  from dpRead_failure_out_parameter [OF run] show ?thesis
    using run by simp
qed

text \<open>
  C3, as the claim states it, fails: on this line the read returns \<open>false\<close> and has
  stored the word 1 of the failed transaction in the out-parameter.
\<close>

theorem dpRead_parity_error_stores_word:
  "map_option fst (dpRead IDCODE False (fresh_link parity_fault_line)) =
     Some (ReadFailed ParityError (Some 1))"
  using parity_fault_read [of IDCODE False] by auto

text \<open>
  C7. A read whose parity bit does not match the even parity of the 32 received bits,
  after any number \<open>n\<close> of attempts answered WAIT, returns \<open>false\<close> on the parity error
  path with the received word, and the last things it does on the pins, after the last of
  its samples (three for each WAIT and 36 for the acknowledge, the data and the parity
  bit), are the write turnaround and the eight idle bits; then it logs the parity error.
\<close>

theorem dpRead_parity_error_drains:
  assumes "\<forall>i<n. received (line s) (sampled s + 3 * i) 3 = 2"
    and "received (line s) (sampled s + 3 * n) 3 = 1"
    and "received (line s) (sampled s + 3 * n + 35) 1
           \<noteq> of_bool (evenParity (received (line s) (sampled s + 3 * n + 3) 32))"
  shows "\<exists>s1. dpRead addr APnDP s =
             Some (ReadFailed ParityError (Some (received (line s) (sampled s + 3 * n + 3) 32)),
                   log LOG_ERROR
                     (PARITY_ERROR_during_read addr APnDP
                        (received (line s) (sampled s + 3 * n + 3) 32))
                     (wireWrite 0 8 (wireWriteTurnaround s1))) \<and>
           sampled s1 = sampled s + 3 * n + 36 \<and>
           gpio (log LOG_ERROR
                   (PARITY_ERROR_during_read addr APnDP
                      (received (line s) (sampled s + 3 * n + 3) 32))
                   (wireWrite 0 8 (wireWriteTurnaround s1))) =
             gpio s1 @ write_trn_events (clockPin s) (dataPin s)
                     @ idle_events (clockPin s) (dataPin s)"
proof -
  let ?sn = "((\<lambda>s. idle (request (packHeader addr APnDP True) s)) ^^ n) s"
  let ?s1 = "data_phase (request (packHeader addr APnDP True) ?sn)"
  have "dpRead addr APnDP s = dpRead_loop addr APnDP (10 - 2 * of_nat n) ?sn"
    using assms(1) dpRead_loop_waits [of n s 10 addr APnDP]
    by (simp add: dpRead_def)
  also have "\<dots> = dpRead_step (dpRead_loop addr APnDP) addr APnDP (10 - 2 * of_nat n) ?sn"
    by (rule dpRead_loop_unfold)
  also have "\<dots> = Some (ReadFailed ParityError (Some (received (line s) (sampled s + 3 * n + 3) 32)),
      log LOG_ERROR
        (PARITY_ERROR_during_read addr APnDP (received (line s) (sampled s + 3 * n + 3) 32))
        (idle ?s1))"
    using assms(2,3) by (simp add: dpRead_step_def add.assoc)
  finally have "dpRead addr APnDP s =
      Some (ReadFailed ParityError (Some (received (line s) (sampled s + 3 * n + 3) 32)),
        log LOG_ERROR
          (PARITY_ERROR_during_read addr APnDP (received (line s) (sampled s + 3 * n + 3) 32))
          (wireWrite 0 8 (wireWriteTurnaround ?s1)))"
    by (simp add: idle_def)
  moreover have "sampled ?s1 = sampled s + 3 * n + 36"
    by simp
  moreover have "clockPin ?s1 = clockPin s" "dataPin ?s1 = dataPin s"
    using attempts_fields(3) [where s = s and n = n and header = "packHeader addr APnDP True"]
    by (simp_all add: same_link_def)
  then have "gpio (log LOG_ERROR
        (PARITY_ERROR_during_read addr APnDP (received (line s) (sampled s + 3 * n + 3) 32))
        (wireWrite 0 8 (wireWriteTurnaround ?s1))) =
      gpio ?s1 @ write_trn_events (clockPin s) (dataPin s) @ idle_events (clockPin s) (dataPin s)"
    using idle_gpio [of ?s1] by (simp add: idle_def)
  ultimately show ?thesis
    by blast
qed

lemma wait_then_parity_fault_line_bits:
  "received wait_then_parity_fault_line 0 3 = 2"
  "received wait_then_parity_fault_line 3 3 = 1"
  "received wait_then_parity_fault_line 6 32 = 1"
  "received wait_then_parity_fault_line 38 1 = 0"
  "received wait_then_parity_fault_line 38 (Suc 0) = 0"
  by (simp_all add: eval_nat_numeral received_Suc wait_then_parity_fault_line_def)

text \<open>
  An instance with one WAIT: the second attempt is answered OK, the word 1 and the parity
  bit 0.
\<close>

theorem dpRead_parity_error_drains_witness:
  "received (line (fresh_link wait_then_parity_fault_line)) 0 3 = 2 \<and>
   received (line (fresh_link wait_then_parity_fault_line)) 3 3 = 1 \<and>
   received (line (fresh_link wait_then_parity_fault_line)) 38 1
     \<noteq> of_bool (evenParity (received (line (fresh_link wait_then_parity_fault_line)) 6 32)) \<and>
   (\<exists>s1. dpRead IDCODE False (fresh_link wait_then_parity_fault_line) =
           Some (ReadFailed ParityError (Some 1),
                 log LOG_ERROR (PARITY_ERROR_during_read IDCODE False 1)
                   (wireWrite 0 8 (wireWriteTurnaround s1))) \<and>
         sampled s1 = 39 \<and>
         gpio (log LOG_ERROR (PARITY_ERROR_during_read IDCODE False 1)
                 (wireWrite 0 8 (wireWriteTurnaround s1))) =
           gpio s1 @ write_trn_events 0 1 @ idle_events 0 1)"
proof -
  let ?s = "fresh_link wait_then_parity_fault_line"
  have f: "line ?s = wait_then_parity_fault_line" "sampled ?s = 0" "clockPin ?s = 0"
    "dataPin ?s = 1"
    by (simp_all add: fresh_link_def)
  have one: "evenParity 1"
    by (simp add: evenParity_def)
  have h1: "\<forall>i<1. received (line ?s) (sampled ?s + 3 * i) 3 = 2"
    by (simp add: f wait_then_parity_fault_line_bits)
  have h2: "received (line ?s) (sampled ?s + 3 * 1) 3 = 1"
    by (simp add: f wait_then_parity_fault_line_bits)
  have h3: "received (line ?s) (sampled ?s + 3 * 1 + 35) 1
      \<noteq> of_bool (evenParity (received (line ?s) (sampled ?s + 3 * 1 + 3) 32))"
    by (simp add: f wait_then_parity_fault_line_bits one)
  from dpRead_parity_error_drains [OF h1 h2 h3, of IDCODE False] show ?thesis
    by (simp add: f wait_then_parity_fault_line_bits one)
qed

section \<open>What a transaction leaves unchanged\<close>

lemma dpWrite_loop_frame:
  assumes "dpWrite_loop addr APnDP data retries s = Some y"
  shows "same_link s (snd y) \<and> sampled s \<le> sampled (snd y)"
  using assms
proof (induction rule: dpWrite_loop.raw_induct [rotated 1, consumes 1, case_names step])
  case (step f addr APnDP data retries s y)
  let ?s1 = "idle (request (packHeader addr APnDP False) s)"
  have body: "dpWrite_step (f addr APnDP data) addr APnDP data retries s = Some y"
    using step(2) unfolding dpWrite_body .
  show ?case
  proof (cases "received (line s) (sampled s) 3 = 2 \<and> retries - 1 \<noteq> 0")
    case True
    then have "f addr APnDP data (retries - 1 - 1) ?s1 = Some y"
      using body by (simp add: dpWrite_step_def)
    from step(1) [OF this] show ?thesis
      by (simp add: same_link_def)
  next
    case False
    then show ?thesis
      using body by (auto simp: dpWrite_step_def same_link_def split: if_splits)
  qed
qed

lemma dpRead_loop_frame:
  assumes "dpRead_loop addr APnDP retries s = Some y"
  shows "same_link s (snd y) \<and> sampled s \<le> sampled (snd y)"
  using assms
proof (induction rule: dpRead_loop.raw_induct [rotated 1, consumes 1, case_names step])
  case (step f addr APnDP retries s y)
  let ?s1 = "idle (request (packHeader addr APnDP True) s)"
  have body: "dpRead_step (f addr APnDP) addr APnDP retries s = Some y"
    using step(2) unfolding dpRead_body .
  show ?case
  proof (cases "received (line s) (sampled s) 3 = 2 \<and> retries - 1 \<noteq> 0")
    case True
    then have "f addr APnDP (retries - 1 - 1) ?s1 = Some y"
      using body by (simp add: dpRead_step_def)
    from step(1) [OF this] show ?thesis
      by (simp add: same_link_def)
  next
    case False
    then show ?thesis
      using body by (auto simp: dpRead_step_def same_link_def split: if_splits)
  qed
qed

lemma dpWrite_frame:
  assumes "dpWrite addr APnDP data s = Some (r, s')"
  shows "same_link s s'" and "sampled s \<le> sampled s'"
  using dpWrite_loop_frame [of addr APnDP data 10
      "log LOG_TRACE (DP_Write addr APnDP data) s" "(r, s')"] assms
  by (simp_all add: dpWrite_def same_link_def)

lemma dpRead_frame:
  assumes "dpRead addr APnDP s = Some (r, s')"
  shows "same_link s s'" and "sampled s \<le> sampled s'"
  using dpRead_loop_frame [of addr APnDP 10 s "(r, s')"] assms
  by (simp_all add: dpRead_def)

section \<open>Selection cache\<close>

lemma dpSelect_cached:
  "select_value accessPort addr = cache_select s \<Longrightarrow> dpSelect accessPort addr s = Some (OK, s)"
  by (simp add: dpSelect_def)

lemma dpSelect_result:
  assumes "dpSelect accessPort addr s = Some (r, s1)"
  shows "if select_value accessPort addr = cache_select s then r = OK \<and> s1 = s
         else \<exists>s0. dpWrite SELECT False (select_value accessPort addr) s = Some (r, s0) \<and>
                s1 = (if r = OK then s0\<lparr>cache_select := select_value accessPort addr\<rparr> else s0)"
  using assms
  by (auto simp: dpSelect_def split: option.splits status.splits if_splits)

lemma dpSelect_cache:
  assumes "dpSelect accessPort addr s = Some (r, s1)"
  shows "cache_select s1 = (if r = OK then select_value accessPort addr else cache_select s)"
proof (cases "select_value accessPort addr = cache_select s")
  case True
  then show ?thesis
    using assms by (simp add: dpSelect_cached)
next
  case False
  with dpSelect_result [OF assms] obtain s0
    where w: "dpWrite SELECT False (select_value accessPort addr) s = Some (r, s0)"
      and s1: "s1 = (if r = OK then s0\<lparr>cache_select := select_value accessPort addr\<rparr> else s0)"
    by auto
  from dpWrite_frame(1) [OF w] show ?thesis
    using s1 by (simp add: same_link_def)
qed

lemma ap_access_cached:
  assumes "cache_select s = select_value accessPort addr"
  shows "apWrite accessPort addr data s = dpWrite addr True data s"
    and "apRead accessPort addr s = dpRead addr True s"
  using assms by (simp_all add: apWrite_def apRead_def dpSelect_def)

lemma apWrite_OK_cache:
  assumes "apWrite accessPort addr data s = Some (OK, s2)"
  shows "cache_select s2 = select_value accessPort addr"
proof -
  from assms obtain s1 where sel: "dpSelect accessPort addr s = Some (OK, s1)"
    and w: "dpWrite addr True data s1 = Some (OK, s2)"
    by (auto simp: apWrite_def split: option.splits status.splits)
  from dpSelect_cache [OF sel] dpWrite_frame(1) [OF w] show ?thesis
    by (simp add: same_link_def)
qed

lemma apRead_OK_cache:
  assumes "apRead accessPort addr s = Some (Read d, s3)"
  shows "cache_select s3 = select_value accessPort addr"
proof -
  from assms obtain s1 where sel: "dpSelect accessPort addr s = Some (OK, s1)"
    and r: "dpRead addr True s1 = Some (Read d, s3)"
    by (auto simp: apRead_def split: option.splits status.splits)
  from dpSelect_cache [OF sel] dpRead_frame(1) [OF r] show ?thesis
    by (simp add: same_link_def)
qed

lemma dpSelect_again:
  assumes "dpSelect accessPort addr s = Some (r, s1)"
  shows "dpSelect accessPort addr s1 =
           (if r = OK then Some (OK, s1)
            else case dpWrite SELECT False (select_value accessPort addr) s1 of
                   None \<Rightarrow> None
                 | Some (Failed f, s2) \<Rightarrow> Some (Failed f, s2)
                 | Some (OK, s2) \<Rightarrow>
                     Some (OK, s2\<lparr>cache_select := select_value accessPort addr\<rparr>))"
proof (cases "r = OK")
  case True
  then show ?thesis
    using dpSelect_cache [OF assms] by (simp add: dpSelect_cached)
next
  case False
  with dpSelect_result [OF assms] have "select_value accessPort addr \<noteq> cache_select s"
    by (auto split: if_splits)
  with False dpSelect_cache [OF assms] have "select_value accessPort addr \<noteq> cache_select s1"
    by simp
  then show ?thesis
    using False by (simp add: dpSelect_def)
qed

text \<open>
  C6. \<open>dpSelect\<close> computes \<open>(accessPort << 24) | (addr & 0xF0)\<close>. When that is the cached
  value it does nothing and succeeds; otherwise it issues one write of that value to
  SELECT, and what it returns, \<open>true\<close> or \<open>false\<close>, is what that write returns. The cache
  afterwards is the written value when the write succeeded and is unchanged when it
  failed: selecting again after a success does nothing, and selecting again after a
  failure issues the write to SELECT again. After an access port write or read that
  succeeded, in any state, the cache holds the selection of that access, and an access to
  the same port and bank is the bare debug port transaction, with no write to SELECT.
\<close>

theorem select_caching:
  assumes "dpSelect accessPort addr s = Some (r, s1)"
    and "apWrite accessPort addr data t = Some (OK, t2)"
    and "apRead accessPort addr u = Some (Read d, u3)"
    and "select_value accessPort addr' = select_value accessPort addr"
  shows "select_value accessPort addr = push_bit 24 accessPort OR (addr AND 0xF0) \<and>
    (if select_value accessPort addr = cache_select s then r = OK \<and> s1 = s
     else \<exists>s0. dpWrite SELECT False (select_value accessPort addr) s = Some (r, s0) \<and>
            s1 = (if r = OK then s0\<lparr>cache_select := select_value accessPort addr\<rparr> else s0)) \<and>
    cache_select s1 = (if r = OK then select_value accessPort addr else cache_select s) \<and>
    dpSelect accessPort addr s1 =
      (if r = OK then Some (OK, s1)
       else case dpWrite SELECT False (select_value accessPort addr) s1 of
              None \<Rightarrow> None
            | Some (Failed f, s2) \<Rightarrow> Some (Failed f, s2)
            | Some (OK, s2) \<Rightarrow>
                Some (OK, s2\<lparr>cache_select := select_value accessPort addr\<rparr>)) \<and>
    cache_select t2 = select_value accessPort addr \<and>
    apWrite accessPort addr' data' t2 = dpWrite addr' True data' t2 \<and>
    apRead accessPort addr' t2 = dpRead addr' True t2 \<and>
    cache_select u3 = select_value accessPort addr \<and>
    apWrite accessPort addr' data' u3 = dpWrite addr' True data' u3 \<and>
    apRead accessPort addr' u3 = dpRead addr' True u3"
proof -
  have ct: "cache_select t2 = select_value accessPort addr"
    by (rule apWrite_OK_cache [OF assms(2)])
  have cu: "cache_select u3 = select_value accessPort addr"
    by (rule apRead_OK_cache [OF assms(3)])
  have "cache_select t2 = select_value accessPort addr'"
    and "cache_select u3 = select_value accessPort addr'"
    using ct cu assms(4) by simp_all
  then have "apWrite accessPort addr' data' t2 = dpWrite addr' True data' t2"
    and "apRead accessPort addr' t2 = dpRead addr' True t2"
    and "apWrite accessPort addr' data' u3 = dpWrite addr' True data' u3"
    and "apRead accessPort addr' u3 = dpRead addr' True u3"
    by (simp_all add: ap_access_cached)
  moreover have "select_value accessPort addr = push_bit 24 accessPort OR (addr AND 0xF0)"
    by (simp add: select_value_def)
  ultimately show ?thesis
    using dpSelect_result [OF assms(1)] dpSelect_cache [OF assms(1)]
      dpSelect_again [OF assms(1)] ct cu
    by (simp only: simp_thms)
qed

lemma two_ok_line_bits:
  "received two_ok_line 0 3 = 1"
  "received two_ok_line 3 3 = 1"
  "received two_ok_line 6 32 = 0"
  "received two_ok_line 38 1 = 0"
  "received two_ok_line 38 (Suc 0) = 0"
  by (simp_all add: eval_nat_numeral received_Suc two_ok_line_def)

lemma evenParity_0: "\<not> evenParity 0"
  by (simp add: evenParity_def)

lemma fresh_link_fields [simp]:
  "line (fresh_link f) = f"
  "sampled (fresh_link f) = 0"
  "cache_select (fresh_link f) = 0xFFFFFFFF"
  "clockPin (fresh_link f) = 0"
  "dataPin (fresh_link f) = 1"
  "logLevel (fresh_link f) = LOG_TRACE"
  "serial (fresh_link f)"
  by (simp_all add: fresh_link_def)

lemma select_value_IDR: "select_value 0 MEM_IDR = 0xF0" "select_value 0 0xF4 = 0xF0"
  by (simp_all add: select_value_def MEM_IDR_def)

lemma two_ok_line_accesses:
  "\<exists>s0 t2 u3.
     dpWrite SELECT False 0xF0 (fresh_link two_ok_line) = Some (OK, s0) \<and>
     dpSelect 0 MEM_IDR (fresh_link two_ok_line) = Some (OK, s0\<lparr>cache_select := 0xF0\<rparr>) \<and>
     apWrite 0 MEM_IDR 0 (fresh_link two_ok_line) = Some (OK, t2) \<and>
     apRead 0 MEM_IDR (fresh_link two_ok_line) = Some (Read 0, u3)"
proof -
  let ?s = "fresh_link two_ok_line"
  have "received (line ?s) (sampled ?s + 3 * 0) 3 \<noteq> 2"
    by (simp add: two_ok_line_bits)
  from dpWrite_outcome [of 0, OF _ this, of SELECT False "0xF0"]
  obtain s0 where w0: "dpWrite SELECT False 0xF0 ?s = Some (OK, s0)"
    and l0: "same_link ?s s0" and k0: "sampled s0 = 3"
    by (auto simp: two_ok_line_bits write_outcome_def)
  let ?s1 = "s0\<lparr>cache_select := 0xF0\<rparr>"
  have sel: "dpSelect 0 MEM_IDR ?s = Some (OK, ?s1)"
    using w0 by (simp add: dpSelect_def select_value_IDR)
  have f1: "line ?s1 = two_ok_line" "sampled ?s1 = 3"
    using l0 k0 by (simp_all add: same_link_def)
  have "received (line ?s1) (sampled ?s1 + 3 * 0) 3 \<noteq> 2"
    by (simp add: f1 two_ok_line_bits)
  from dpWrite_outcome [of 0, OF _ this, of MEM_IDR True 0]
  obtain t2 where w1: "dpWrite MEM_IDR True 0 ?s1 = Some (OK, t2)"
    by (auto simp: f1 two_ok_line_bits write_outcome_def)
  have wr: "apWrite 0 MEM_IDR 0 ?s = Some (OK, t2)"
    using sel w1 by (simp add: apWrite_def)
  have "received (line ?s1) (sampled ?s1 + 3 * 0) 3 \<noteq> 2"
    by (simp add: f1 two_ok_line_bits)
  from dpRead_outcome [of 0, OF _ this, of MEM_IDR True]
  obtain u3 where r1: "dpRead MEM_IDR True ?s1 = Some (Read 0, u3)"
    by (auto simp: f1 two_ok_line_bits read_outcome_def evenParity_0)
  have rd: "apRead 0 MEM_IDR ?s = Some (Read 0, u3)"
    using sel r1 by (simp add: apRead_def)
  show ?thesis
    using w0 sel wr rd by blast
qed

lemma select_fault_line_select:
  "\<exists>s1. dpWrite SELECT False 0xF0 (fresh_link select_fault_line)
           = Some (Failed ProtocolFault, s1) \<and>
        dpSelect 0 MEM_IDR (fresh_link select_fault_line) = Some (Failed ProtocolFault, s1)"
proof -
  let ?s = "fresh_link select_fault_line"
  have ack: "received select_fault_line 0 3 = 4"
    by (simp add: received_3 select_fault_line_def)
  then have "received (line ?s) (sampled ?s + 3 * 0) 3 \<noteq> 2"
    by simp
  from dpWrite_outcome [of 0, OF _ this, of SELECT False "0xF0"]
  obtain s1 where w0: "dpWrite SELECT False 0xF0 ?s = Some (Failed ProtocolFault, s1)"
    by (auto simp: ack write_outcome_def)
  then have "dpSelect 0 MEM_IDR ?s = Some (Failed ProtocolFault, s1)"
    by (simp add: dpSelect_def select_value_IDR)
  with w0 show ?thesis
    by blast
qed

text \<open>
  Two instances, on fresh links, whose cache is the invalid 0xFFFFFFFF, selecting bank
  0xF0 of port 0 for the IDR register. In the first the write to SELECT is answered FAULT:
  the selection returns \<open>false\<close>, the cache is still 0xFFFFFFFF, and selecting again
  writes SELECT again. In the second the write is answered OK: the cache is 0xF0 and
  selecting again does nothing. In both, after the write or the read of IDR on a link
  that answers OK, an access to the register 0xF4 of the same bank is the bare
  transaction.
\<close>

theorem select_caching_witness:
  "\<exists>s1 s1' t2 u3.
     dpSelect 0 MEM_IDR (fresh_link select_fault_line) = Some (Failed ProtocolFault, s1) \<and>
     dpWrite SELECT False 0xF0 (fresh_link select_fault_line) = Some (Failed ProtocolFault, s1) \<and>
     cache_select s1 = 0xFFFFFFFF \<and>
     dpSelect 0 MEM_IDR s1 =
       (case dpWrite SELECT False 0xF0 s1 of
          None \<Rightarrow> None
        | Some (Failed f, s2) \<Rightarrow> Some (Failed f, s2)
        | Some (OK, s2) \<Rightarrow> Some (OK, s2\<lparr>cache_select := 0xF0\<rparr>)) \<and>
     dpSelect 0 MEM_IDR (fresh_link two_ok_line) = Some (OK, s1') \<and>
     (\<exists>s0. dpWrite SELECT False 0xF0 (fresh_link two_ok_line) = Some (OK, s0) \<and>
        s1' = s0\<lparr>cache_select := 0xF0\<rparr>) \<and>
     cache_select s1' = 0xF0 \<and>
     dpSelect 0 MEM_IDR s1' = Some (OK, s1') \<and>
     apWrite 0 MEM_IDR 0 (fresh_link two_ok_line) = Some (OK, t2) \<and>
     apRead 0 MEM_IDR (fresh_link two_ok_line) = Some (Read 0, u3) \<and>
     select_value 0 0xF4 = select_value 0 MEM_IDR \<and>
     cache_select t2 = 0xF0 \<and>
     apWrite 0 0xF4 7 t2 = dpWrite 0xF4 True 7 t2 \<and>
     apRead 0 0xF4 t2 = dpRead 0xF4 True t2 \<and>
     cache_select u3 = 0xF0 \<and>
     apWrite 0 0xF4 7 u3 = dpWrite 0xF4 True 7 u3 \<and>
     apRead 0 0xF4 u3 = dpRead 0xF4 True u3"
proof -
  obtain s1 where wf: "dpWrite SELECT False 0xF0 (fresh_link select_fault_line)
      = Some (Failed ProtocolFault, s1)"
    and self: "dpSelect 0 MEM_IDR (fresh_link select_fault_line) = Some (Failed ProtocolFault, s1)"
    using select_fault_line_select by blast
  obtain s0 t2 u3 where w0: "dpWrite SELECT False 0xF0 (fresh_link two_ok_line) = Some (OK, s0)"
    and sel: "dpSelect 0 MEM_IDR (fresh_link two_ok_line) = Some (OK, s0\<lparr>cache_select := 0xF0\<rparr>)"
    and wr: "apWrite 0 MEM_IDR 0 (fresh_link two_ok_line) = Some (OK, t2)"
    and rd: "apRead 0 MEM_IDR (fresh_link two_ok_line) = Some (Read 0, u3)"
    using two_ok_line_accesses by blast
  have bank: "select_value 0 0xF4 = select_value 0 MEM_IDR"
    by (simp add: select_value_IDR)
  have failed: "Failed ProtocolFault \<noteq> OK"
    by simp
  have sv: "select_value 0 MEM_IDR = 0xF0"
    by (simp add: select_value_IDR)
  from select_caching [OF self wr rd bank, of 7, unfolded sv]
    select_caching [OF sel wr rd bank, of 7, unfolded sv]
  show ?thesis
    using wf self w0 sel wr rd bank failed
    by (simp add: select_value_IDR)
qed

section \<open>The sentinel of the selection cache\<close>



section \<open>Memory access\<close>

lemma run_steps_count:
  assumes "run_steps steps s = Some (r, n, s')"
  shows "n \<le> length steps \<and> (if r = OK then n = length steps else 0 < n)"
  using assms
proof (induction steps arbitrary: s n)
  case Nil
  then show ?case by simp
next
  case (Cons step steps)
  show ?case
  proof (cases "step s")
    case None
    with Cons.prems show ?thesis by simp
  next
    case (Some y)
    obtain r1 s1 where y: "y = (r1, s1)" by (cases y)
    show ?thesis
    proof (cases r1)
      case OK
      with Cons.prems Some y obtain m where run: "run_steps steps s1 = Some (r, m, s')"
        and n: "n = Suc m"
        by (auto split: option.splits)
      from Cons.IH [OF run] n show ?thesis by auto
    next
      case (Failed f)
      with Cons.prems Some y show ?thesis by auto
    qed
  qed
qed

lemma run_steps_failure:
  assumes "run_steps steps s = Some (Failed f, n, s')"
  shows "\<exists>s0. run_steps (take (n - 1) steps) s = Some (OK, n - 1, s0) \<and>
           (steps ! (n - 1)) s0 = Some (Failed f, s')"
  using assms
proof (induction steps arbitrary: s n)
  case Nil
  then show ?case by simp
next
  case (Cons step steps)
  show ?case
  proof (cases "step s")
    case None
    with Cons.prems show ?thesis by simp
  next
    case (Some y)
    obtain r1 s1 where y: "y = (r1, s1)" by (cases y)
    show ?thesis
    proof (cases r1)
      case OK
      with Cons.prems Some y obtain m where run: "run_steps steps s1 = Some (Failed f, m, s')"
        and n: "n = Suc m"
        by (auto split: option.splits)
      from run_steps_count [OF run] have "0 < m" by simp
      then obtain k where m: "m = Suc k" by (cases m) auto
      from Cons.IH [OF run] obtain s0
        where "run_steps (take (m - 1) steps) s1 = Some (OK, m - 1, s0)"
          and "(steps ! (m - 1)) s0 = Some (Failed f, s')"
        by blast
      then show ?thesis
        using Some y OK n m by auto
    next
      case (Failed g)
      with Cons.prems Some y show ?thesis by auto
    qed
  qed
qed

lemma memStore_loop_steps:
  "memStore_loop addr data i count s =
     map_option (\<lambda>(r, n, s'). (r, s'))
       (run_steps (map (\<lambda>j. drw_write (addr + of_nat j) (data (i + j))) [0..<count]) s)"
proof (induction count arbitrary: addr i s)
  case 0
  then show ?case by simp
next
  case (Suc count)
  have steps: "map (\<lambda>j. drw_write (addr + of_nat j) (data (i + j))) [0..<Suc count] =
      drw_write addr (data i)
        # map (\<lambda>j. drw_write (addr + 1 + of_nat j) (data (Suc i + j))) [0..<count]"
  proof -
    have "[0..<Suc count] = 0 # map Suc [0..<count]"
      by (simp add: upt_conv_Cons map_Suc_upt del: upt_Suc)
    then show ?thesis
      by (simp add: comp_def ac_simps del: upt_Suc)
  qed
  show ?case
    unfolding steps
    by (simp add: Suc.IH drw_write_def [of addr "data i"] split: option.splits status.splits)
qed

lemma memStore_steps:
  "memStore addr data count s =
     map_option (\<lambda>(r, n, s'). (r, s')) (run_steps (store_steps addr data count) s)"
  by (simp add: memStore_def store_steps_def memStore_loop_steps
      split: option.splits status.splits)

text \<open>
  C8. \<open>memStore\<close> performs the writes of \<open>store_steps\<close>, in that order and up to the
  first that fails: one write of TAR, then writes of DRW only, one for each word. A run
  that returns has performed \<open>n\<close> of these writes, the TAR write and \<open>n - 1\<close> DRW writes,
  with \<open>n - 1\<close> at most \<open>count\<close>; it returns \<open>true\<close> only after all \<open>count\<close> DRW writes, and
  when it returns \<open>false\<close> the write that failed is the last one performed: the writes
  before it succeeded and none after it is attempted.
\<close>

theorem memStore_writes:
  assumes "run_steps (store_steps addr data count) s = Some (r, n, s')"
  shows "memStore addr data count s = Some (r, s') \<and>
    hd (store_steps addr data count) = apWrite 0 MEM_TAR addr \<and>
    tl (store_steps addr data count) =
      map (\<lambda>j. drw_write (addr + of_nat j) (data j)) [0..<count] \<and>
    1 \<le> n \<and> n - 1 \<le> count \<and>
    (if r = OK then n - 1 = count
     else \<exists>s0. run_steps (take (n - 1) (store_steps addr data count)) s = Some (OK, n - 1, s0) \<and>
            (store_steps addr data count ! (n - 1)) s0 = Some (r, s'))"
proof -
  have len: "length (store_steps addr data count) = Suc count"
    by (simp add: store_steps_def)
  have "memStore addr data count s = Some (r, s')"
    using assms by (simp add: memStore_steps)
  moreover have "1 \<le> n"
    using assms by (auto simp: store_steps_def split: option.splits status.splits)
  moreover have "n - 1 \<le> count" and "r = OK \<Longrightarrow> n - 1 = count"
    using run_steps_count [OF assms] len by (auto split: if_splits)
  moreover have "\<exists>s0. run_steps (take (n - 1) (store_steps addr data count)) s
        = Some (OK, n - 1, s0) \<and>
      (store_steps addr data count ! (n - 1)) s0 = Some (r, s')" if "r \<noteq> OK"
  proof -
    from that obtain f where "r = Failed f" by (cases r) auto
    with run_steps_failure [of "store_steps addr data count" s f n s'] assms
    show ?thesis by simp
  qed
  ultimately show ?thesis
    by (simp add: store_steps_def)
qed

lemma apWrite_first:
  assumes "select_value accessPort addr \<noteq> cache_select s"
    and "received (line s) (sampled s) 3 = 1"
    and "received (line s) (sampled s + 3) 3 \<noteq> 2"
  shows "\<exists>s'. apWrite accessPort addr data s =
             Some (write_outcome (received (line s) (sampled s + 3) 3), s') \<and>
           line s' = line s \<and> sampled s' = sampled s + 6 \<and>
           cache_select s' = select_value accessPort addr"
proof -
  have "received (line s) (sampled s + 3 * 0) 3 \<noteq> 2"
    using assms(2) by simp
  from dpWrite_outcome [of 0, OF _ this, of SELECT False "select_value accessPort addr"]
  obtain s0 where w0: "dpWrite SELECT False (select_value accessPort addr) s = Some (OK, s0)"
    and l0: "same_link s s0" and k0: "sampled s0 = sampled s + 3"
    using assms(2) by (auto simp: write_outcome_def)
  let ?s1 = "s0\<lparr>cache_select := select_value accessPort addr\<rparr>"
  have sel: "dpSelect accessPort addr s = Some (OK, ?s1)"
    using w0 assms(1) by (simp add: dpSelect_def)
  have f1: "line ?s1 = line s" "sampled ?s1 = sampled s + 3"
    using l0 k0 by (simp_all add: same_link_def)
  have "received (line ?s1) (sampled ?s1 + 3 * 0) 3 \<noteq> 2"
    using assms(3) by (simp add: f1)
  from dpWrite_outcome [of 0, OF _ this, of addr True data]
  obtain s' where "dpWrite addr True data ?s1 =
      Some (write_outcome (received (line s) (sampled s + 3) 3), s')"
    and "same_link ?s1 s'" and "sampled s' = sampled s + 6"
    by (auto simp: f1)
  then show ?thesis
    using sel f1 by (auto simp: apWrite_def same_link_def)
qed

lemma apWrite_cached:
  assumes "select_value accessPort addr = cache_select s"
    and "received (line s) (sampled s) 3 \<noteq> 2"
  shows "\<exists>s'. apWrite accessPort addr data s =
             Some (write_outcome (received (line s) (sampled s) 3), s') \<and>
           line s' = line s \<and> sampled s' = sampled s + 3 \<and>
           cache_select s' = cache_select s"
proof -
  have "received (line s) (sampled s + 3 * 0) 3 \<noteq> 2"
    using assms(2) by simp
  from dpWrite_outcome [of 0, OF _ this, of addr True data]
  obtain s' where "dpWrite addr True data s =
      Some (write_outcome (received (line s) (sampled s) 3), s')"
    and "same_link s s'" and "sampled s' = sampled s + 3"
    by auto
  then show ?thesis
    using assms(1) by (auto simp: apWrite_def dpSelect_def same_link_def)
qed

lemma store_fault_line_bits:
  "received store_fault_line 0 3 = 1"
  "received store_fault_line 3 3 = 1"
  "received store_fault_line 6 3 = 1"
  "received store_fault_line 9 3 = 4"
  by (simp_all add: received_3 store_fault_line_def)

lemma store_fault_run:
  "\<exists>s'. run_steps (store_steps 0x20000000 store_buffer 3) (fresh_link store_fault_line) =
          Some (Failed ProtocolFault, 3, s')"
proof -
  let ?s = "fresh_link store_fault_line"
  have sel: "select_value 0 MEM_TAR = 0" "select_value 0 MEM_DRW = 0"
    by (simp_all add: select_value_def MEM_TAR_def MEM_DRW_def)
  have "\<exists>sa. apWrite 0 MEM_TAR 0x20000000 ?s = Some (OK, sa) \<and>
      line sa = store_fault_line \<and> sampled sa = 6 \<and> cache_select sa = 0"
    using apWrite_first [of 0 MEM_TAR ?s "0x20000000"]
    by (simp add: sel store_fault_line_bits write_outcome_def)
  then obtain sa where a: "apWrite 0 MEM_TAR 0x20000000 ?s = Some (OK, sa)"
    and fa: "line sa = store_fault_line" "sampled sa = 6" "cache_select sa = 0"
    by blast
  let ?la = "log LOG_TRACE (MEM_Store 0x20000000 0x11) sa"
  have "\<exists>sb. apWrite 0 MEM_DRW 0x11 ?la = Some (OK, sb) \<and>
      line sb = store_fault_line \<and> sampled sb = 9 \<and> cache_select sb = 0"
    using apWrite_cached [of 0 MEM_DRW ?la "0x11"]
    by (simp add: sel fa store_fault_line_bits write_outcome_def)
  then obtain sb where b: "drw_write 0x20000000 0x11 sa = Some (OK, sb)"
    and fb: "line sb = store_fault_line" "sampled sb = 9" "cache_select sb = 0"
    by (auto simp: drw_write_def)
  let ?lb = "log LOG_TRACE (MEM_Store 0x20000001 0x22) sb"
  have "\<exists>sc. apWrite 0 MEM_DRW 0x22 ?lb = Some (Failed ProtocolFault, sc)"
    using apWrite_cached [of 0 MEM_DRW ?lb "0x22"]
    by (auto simp: sel fb store_fault_line_bits write_outcome_def)
  then obtain sc where c: "drw_write 0x20000001 0x22 sb = Some (Failed ProtocolFault, sc)"
    by (auto simp: drw_write_def)
  have "[0..<3] = [0, 1, 2 :: nat]"
    by (simp add: eval_nat_numeral)
  then have "store_steps 0x20000000 store_buffer 3 =
      [apWrite 0 MEM_TAR 0x20000000, drw_write 0x20000000 0x11, drw_write 0x20000001 0x22,
       drw_write 0x20000002 0x33]"
    by (simp add: store_steps_def store_buffer_def)
  then have "run_steps (store_steps 0x20000000 store_buffer 3) ?s =
      Some (Failed ProtocolFault, 3, sc)"
    using a b c by simp
  then show ?thesis
    by blast
qed

text \<open>
  An instance: storing the three words 0x11, 0x22, 0x33 at 0x20000000 when the write of
  the second word is answered FAULT. Three register writes are performed, TAR and two of
  DRW, and the store returns \<open>false\<close>; the third word is not written.
\<close>

theorem memStore_writes_witness:
  "\<exists>s'. run_steps (store_steps 0x20000000 store_buffer 3) (fresh_link store_fault_line) =
          Some (Failed ProtocolFault, 3, s') \<and>
        memStore 0x20000000 store_buffer 3 (fresh_link store_fault_line) =
          Some (Failed ProtocolFault, s') \<and>
        (\<exists>s0. run_steps (take 2 (store_steps 0x20000000 store_buffer 3))
                 (fresh_link store_fault_line) = Some (OK, 2, s0) \<and>
               (store_steps 0x20000000 store_buffer 3 ! 2) s0 = Some (Failed ProtocolFault, s'))"
proof -
  obtain s' where run: "run_steps (store_steps 0x20000000 store_buffer 3)
      (fresh_link store_fault_line) = Some (Failed ProtocolFault, 3, s')"
    using store_fault_run by blast
  from memStore_writes [OF run] show ?thesis
    using run by auto
qed

text \<open>
  C9. The single-word \<open>memStore\<close> and \<open>memLoad\<close> are the vectorized forms on a buffer
  whose element 0 is the word, with a count of one: the same result, the same final state
  and so the same trace on the wire, and for the load the same word left in element 0.
\<close>

theorem single_word_forms:
  "memStore1 addr data s = memStore addr (buf(0 := data)) 1 s \<and>
   memLoad1 addr data s =
     map_option (\<lambda>(r, b, s'). (r, b 0, s')) (memLoad addr (buf(0 := data)) 1 s)"
proof -
  have one: "(1::nat) = Suc 0" by simp
  have "memStore1 addr data s = memStore addr (buf(0 := data)) 1 s"
    unfolding memStore1_def memStore_def one
    by (auto split: option.splits status.splits)
  moreover have "memLoad1 addr data s =
      map_option (\<lambda>(r, b, s'). (r, b 0, s')) (memLoad addr (buf(0 := data)) 1 s)"
    unfolding memLoad1_def memLoad_def one
    by (auto split: option.splits status.splits rstatus.splits)
  ultimately show ?thesis by simp
qed

section \<open>Waiting for power-up\<close>

declare powerUp_loop.simps [simp del]

lemma dpRead_first_attempt:
  assumes "read_outcome (line s) (sampled s) = Read d"
  shows "\<exists>s'. dpRead addr APnDP s = Some (Read d, s') \<and> same_link s s' \<and>
           sampled s' = sampled s + 36"
proof -
  have ack: "received (line s) (sampled s) 3 = 1"
    using assms by (auto simp: read_outcome_def split: if_splits)
  then have "received (line s) (sampled s + 3 * 0) 3 \<noteq> 2"
    by simp
  from dpRead_outcome [of 0, OF _ this, of addr APnDP] show ?thesis
    using assms ack by auto
qed

lemma powerUp_loop_read:
  assumes "retries \<noteq> 0" and "read_outcome (line s) (sampled s) = Read d"
  shows "\<exists>s'. same_link s s' \<and> sampled s' = sampled s + 36 \<and>
           powerUp_loop retries ctrlstat s =
             (if powered d then Some (Inr (retries - 1, Some d), s')
              else powerUp_loop (retries - 1) (Some d) s')"
proof -
  from dpRead_first_attempt [OF assms(2), of CTRLSTAT False]
  obtain s' where "dpRead CTRLSTAT False s = Some (Read d, s')"
    and "same_link s s'" and "sampled s' = sampled s + 36"
    by blast
  then show ?thesis
    using assms(1) by (subst powerUp_loop.simps) (auto simp: powered_def)
qed

lemma begin_powerUp_four_reads:
  assumes "received (line s) (sampled s) 3 = 1"
    and "read_outcome (line s) (sampled s + 3) = Read d1"
    and "read_outcome (line s) (sampled s + 39) = Read d2"
    and "read_outcome (line s) (sampled s + 75) = Read d3"
    and "read_outcome (line s) (sampled s + 111) = Read d4"
    and "\<not> powered d1" and "\<not> powered d2" and "\<not> powered d3"
  shows "\<exists>s'. same_link s s' \<and> sampled s' = sampled s + 147 \<and>
           begin_powerUp s =
             (if powered d4
              then Some (Failed PowerUpTimeout, log LOG_ERROR (Failed_to_power_on (Some d4)) s')
              else begin_accessPort s')"
proof -
  have "received (line s) (sampled s + 3 * 0) 3 \<noteq> 2"
    using assms(1) by simp
  from dpWrite_outcome [of 0, OF _ this, of CTRLSTAT False "CSYSPWRUPREQ OR CDBGPWRUPREQ"]
  obtain s0 where w: "dpWrite CTRLSTAT False (CSYSPWRUPREQ OR CDBGPWRUPREQ) s = Some (OK, s0)"
    and l0: "same_link s s0" and k0: "sampled s0 = sampled s + 3"
    using assms(1) by (auto simp: write_outcome_def)
  have f0: "line s0 = line s"
    using l0 by (simp add: same_link_def)
  have "read_outcome (line s0) (sampled s0) = Read d1"
    using assms(2) by (simp add: f0 k0)
  from powerUp_loop_read [OF _ this, of 4 None]
  obtain s1 where l1: "same_link s0 s1" and k1: "sampled s1 = sampled s + 39"
    and p1: "powerUp_loop 4 None s0 = powerUp_loop 3 (Some d1) s1"
    using assms(6) by (auto simp: k0)
  have f1: "line s1 = line s"
    using l1 f0 by (simp add: same_link_def)
  have "read_outcome (line s1) (sampled s1) = Read d2"
    using assms(3) by (simp add: f1 k1)
  from powerUp_loop_read [OF _ this, of 3 "Some d1"]
  obtain s2 where l2: "same_link s1 s2" and k2: "sampled s2 = sampled s + 75"
    and p2: "powerUp_loop 3 (Some d1) s1 = powerUp_loop 2 (Some d2) s2"
    using assms(7) by (auto simp: k1)
  have f2: "line s2 = line s"
    using l2 f1 by (simp add: same_link_def)
  have "read_outcome (line s2) (sampled s2) = Read d3"
    using assms(4) by (simp add: f2 k2)
  from powerUp_loop_read [OF _ this, of 2 "Some d2"]
  obtain s3 where l3: "same_link s2 s3" and k3: "sampled s3 = sampled s + 111"
    and p3: "powerUp_loop 2 (Some d2) s2 = powerUp_loop 1 (Some d3) s3"
    using assms(8) by (auto simp: k2)
  have f3: "line s3 = line s"
    using l3 f2 by (simp add: same_link_def)
  have "read_outcome (line s3) (sampled s3) = Read d4"
    using assms(5) by (simp add: f3 k3)
  from powerUp_loop_read [OF _ this, of 1 "Some d3"]
  obtain s4 where l4: "same_link s3 s4" and k4: "sampled s4 = sampled s + 147"
    and p4: "powerUp_loop 1 (Some d3) s3 =
      (if powered d4 then Some (Inr (0, Some d4), s4) else powerUp_loop 0 (Some d4) s4)"
    by (auto simp: k3)
  have last: "powerUp_loop 0 (Some d4) s4 = Some (Inr (0 - 1, Some d4), s4)"
    by (subst powerUp_loop.simps) simp
  have "powerUp_loop 4 None s0 =
      (if powered d4 then Some (Inr (0, Some d4), s4) else Some (Inr (0 - 1, Some d4), s4))"
    by (simp only: p1 p2 p3 p4 last)
  then have "begin_powerUp s =
      (if powered d4
       then Some (Failed PowerUpTimeout, log LOG_ERROR (Failed_to_power_on (Some d4)) s4)
       else begin_accessPort s4)"
    using w by (simp add: begin_powerUp_def)
  moreover have "same_link s s4"
    using l0 l1 l2 l3 l4 by (blast intro: same_link_trans)
  ultimately show ?thesis
    using k4 by blast
qed

text \<open>
  C2. After the write of CTRL/STAT, with four reads of CTRL/STAT that succeed and the
  first three without both acknowledge bits: when the fourth read has both bits set,
  \<open>begin\<close> fails with the power-up diagnostic, and when the fourth read has not, \<open>begin\<close>
  goes on to the access port checks as if power-up had been acknowledged. The loop
  \<open>while (retries--)\<close> leaves \<open>retries\<close> at 0 when it breaks in the fourth pass and at
  4294967295 when its condition fails, and \<open>if (!retries)\<close> tests for 0.
\<close>

theorem begin_powerUp_fourth_read:
  assumes "received (line s) (sampled s) 3 = 1"
    and "read_outcome (line s) (sampled s + 3) = Read d1"
    and "read_outcome (line s) (sampled s + 39) = Read d2"
    and "read_outcome (line s) (sampled s + 75) = Read d3"
    and "read_outcome (line s) (sampled s + 111) = Read d4"
    and "\<not> powered d1" and "\<not> powered d2" and "\<not> powered d3"
  shows "\<exists>s'. same_link s s' \<and> sampled s' = sampled s + 147 \<and>
           begin_powerUp s =
             (if powered d4
              then Some (Failed PowerUpTimeout, log LOG_ERROR (Failed_to_power_on (Some d4)) s')
              else begin_accessPort s')"
  using assms by (rule begin_powerUp_four_reads)

lemma received_zero:
  assumes "\<forall>i<n. \<not> f (k + i)"
  shows "received f k n = 0"
  using assms by (intro bit_eqI) (simp add: received_bits)

lemma received_1: "received f k 1 = of_bool (f k)" "received f k (Suc 0) = of_bool (f k)"
  by (simp_all add: received_Suc)

lemma unpowered_line_read:
  assumes "k = 3 \<or> k = 39 \<or> k = 75 \<or> k = 111"
  shows "read_outcome unpowered_line k = Read 0"
proof -
  have "received unpowered_line k 3 = 1"
    using assms by (auto simp: received_3 unpowered_line_def)
  moreover have "received unpowered_line (k + 3) 32 = 0"
    using assms by (intro received_zero) (auto simp: unpowered_line_def)
  moreover have "received unpowered_line (k + 35) 1 = 0"
    using assms by (auto simp: received_1 unpowered_line_def)
  ultimately show ?thesis
    by (simp add: read_outcome_def evenParity_0)
qed

lemma not_powered_0: "\<not> powered 0"
  by (simp add: powered_def CDBGPWRUPACK_def CSYSPWRUPACK_def)

text \<open>
  An instance: the four reads of CTRL/STAT return 0, and \<open>begin\<close> goes on to the access
  port checks.
\<close>

theorem begin_powerUp_fourth_read_witness:
  "received (line (fresh_link unpowered_line)) (sampled (fresh_link unpowered_line)) 3 = 1 \<and>
   read_outcome (line (fresh_link unpowered_line)) (sampled (fresh_link unpowered_line) + 3)
     = Read 0 \<and>
   read_outcome (line (fresh_link unpowered_line)) (sampled (fresh_link unpowered_line) + 39)
     = Read 0 \<and>
   read_outcome (line (fresh_link unpowered_line)) (sampled (fresh_link unpowered_line) + 75)
     = Read 0 \<and>
   read_outcome (line (fresh_link unpowered_line)) (sampled (fresh_link unpowered_line) + 111)
     = Read 0 \<and>
   \<not> powered 0 \<and>
   (\<exists>s'. same_link (fresh_link unpowered_line) s' \<and> sampled s' = 147 \<and>
      begin_powerUp (fresh_link unpowered_line) = begin_accessPort s')"
proof -
  let ?s = "fresh_link unpowered_line"
  have a: "received (line ?s) (sampled ?s) 3 = 1"
    by (simp add: received_3 unpowered_line_def)
  have r1: "read_outcome (line ?s) (sampled ?s + 3) = Read 0"
    and r2: "read_outcome (line ?s) (sampled ?s + 39) = Read 0"
    and r3: "read_outcome (line ?s) (sampled ?s + 75) = Read 0"
    and r4: "read_outcome (line ?s) (sampled ?s + 111) = Read 0"
    by (simp_all add: unpowered_line_read)
  from begin_powerUp_fourth_read [OF a r1 r2 r3 r4 not_powered_0 not_powered_0 not_powered_0]
  show ?thesis
    using a r1 r2 r3 r4 not_powered_0 by simp
qed


text \<open>
  The power-up wait behaves as the spec says while the acknowledgment arrives with one of
  the first three reads, and \<open>begin\<close> comes to the power-up request once the IDCODE it
  reads has the expected part number.
\<close>

lemma begin_powerUp_first_read:
  assumes "received (line s) (sampled s) 3 = 1"
    and "read_outcome (line s) (sampled s + 3) = Read d1"
    and "powered d1"
  shows "\<exists>s'. same_link s s' \<and> sampled s' = sampled s + 39 \<and>
           begin_powerUp s = begin_accessPort s'"
proof -
  have "received (line s) (sampled s + 3 * 0) 3 \<noteq> 2"
    using assms(1) by simp
  from dpWrite_outcome [of 0, OF _ this, of CTRLSTAT False "CSYSPWRUPREQ OR CDBGPWRUPREQ"]
  obtain s0 where w: "dpWrite CTRLSTAT False (CSYSPWRUPREQ OR CDBGPWRUPREQ) s = Some (OK, s0)"
    and l0: "same_link s s0" and k0: "sampled s0 = sampled s + 3"
    using assms(1) by (auto simp: write_outcome_def)
  have "read_outcome (line s0) (sampled s0) = Read d1"
    using assms(2) l0 by (simp add: same_link_def k0)
  from powerUp_loop_read [OF _ this, of 4 None]
  obtain s1 where l1: "same_link s0 s1" and k1: "sampled s1 = sampled s + 39"
    and p1: "powerUp_loop 4 None s0 = Some (Inr (3, Some d1), s1)"
    using assms(3) by (auto simp: k0)
  have "begin_powerUp s = begin_accessPort s1"
    using w p1 by (simp add: begin_powerUp_def)
  then show ?thesis
    using same_link_trans [OF l0 l1] k1 by blast
qed

lemma begin_reset_fields [simp]:
  "line (begin_reset clockPin' dataPin' logLevel' s) = line s"
  "sampled (begin_reset clockPin' dataPin' logLevel' s) = sampled s"
  by (simp_all add: begin_reset_def Let_def pinMode_emit)

lemma begin_reaches_powerUp:
  assumes "read_outcome (line s) (sampled s) = Read idcode"
    and "idcode AND 0x0FF00001 = 0x0ba00001"
  shows "\<exists>s'. line s' = line s \<and> sampled s' = sampled s + 36 \<and>
           begin' clockPin' dataPin' logLevel' s = begin_powerUp s'"
proof -
  let ?s0 = "begin_reset clockPin' dataPin' logLevel' s"
  have "read_outcome (line ?s0) (sampled ?s0) = Read idcode"
    using assms(1) by simp
  from dpRead_first_attempt [OF this, of IDCODE False]
  obtain s1 where r: "dpRead IDCODE False ?s0 = Some (Read idcode, s1)"
    and l: "same_link ?s0 s1" and k: "sampled s1 = sampled ?s0 + 36"
    by blast
  let ?s' = "log LOG_NORMAL (Found_processor idcode) s1"
  have "begin' clockPin' dataPin' logLevel' s = begin_powerUp ?s'"
    using r assms(2) by (simp add: begin'_def)
  moreover have "line ?s' = line s" "sampled ?s' = sampled s + 36"
    using l k by (simp_all add: same_link_def)
  ultimately show ?thesis
    by blast
qed

section \<open>A run of the initialisation without power-up\<close>

lemma received_numeral:
  "received f k (numeral n) = of_bool (f k) + 2 * received f (k + 1) (pred_numeral n)"
  by (simp add: numeral_eq_Suc received_Suc)

lemma never_powered_line_idcode: "read_outcome never_powered_line 0 = Read 0x2BA01477"
proof -
  have "received never_powered_line 0 3 = 1"
    by (simp add: received_3 never_powered_line_def)
  moreover have "received never_powered_line 3 32 = 0x2BA01477"
    by (simp add: received_numeral received_1 never_powered_line_def)
  moreover have "received never_powered_line 35 1 = 0"
    by (simp add: received_1 never_powered_line_def)
  moreover have "\<not> evenParity 0x2BA01477"
    by (simp add: evenParity_def)
  ultimately show ?thesis
    by (simp add: read_outcome_def)
qed


lemma never_powered_line_ctrlstat:
  assumes "k = 39 \<or> k = 75 \<or> k = 111 \<or> k = 147"
  shows "read_outcome never_powered_line k = Read 0"
proof -
  have "received never_powered_line k 3 = 1"
    using assms by (auto simp: received_3 never_powered_line_def)
  moreover have "received never_powered_line (k + 3) 32 = 0"
    using assms by (intro received_zero) (auto simp: never_powered_line_def)
  moreover have "received never_powered_line (k + 35) 1 = 0"
    using assms by (auto simp: received_1 never_powered_line_def)
  ultimately show ?thesis
    by (simp add: read_outcome_def evenParity_0)
qed

lemma never_powered_line_idr: "read_outcome never_powered_line 186 = Read 1"
proof -
  have "received never_powered_line 186 3 = 1"
    by (simp add: received_3 never_powered_line_def)
  moreover have "received never_powered_line 189 32 = 1"
    by (simp add: received_numeral received_1 never_powered_line_def)
  moreover have "received never_powered_line 221 1 = 1"
    by (simp add: received_1 never_powered_line_def)
  moreover have "evenParity 1"
    by (simp add: evenParity_def)
  ultimately show ?thesis
    by (simp add: read_outcome_def)
qed

lemma never_powered_line_acks:
  "received never_powered_line 36 3 = 1"
  "received never_powered_line 183 3 = 1"
  "received never_powered_line 222 3 = 1"
  "received never_powered_line 225 3 = 1"
  by (simp_all add: received_3 never_powered_line_def)

lemma apRead_first:
  assumes "select_value accessPort addr \<noteq> cache_select s"
    and "received (line s) (sampled s) 3 = 1"
    and "read_outcome (line s) (sampled s + 3) = Read d"
  shows "\<exists>s'. apRead accessPort addr s = Some (Read d, s') \<and>
           line s' = line s \<and> sampled s' = sampled s + 39 \<and>
           cache_select s' = select_value accessPort addr"
proof -
  have "received (line s) (sampled s + 3 * 0) 3 \<noteq> 2"
    using assms(2) by simp
  from dpWrite_outcome [of 0, OF _ this, of SELECT False "select_value accessPort addr"]
  obtain s0 where w0: "dpWrite SELECT False (select_value accessPort addr) s = Some (OK, s0)"
    and l0: "same_link s s0" and k0: "sampled s0 = sampled s + 3"
    using assms(2) by (auto simp: write_outcome_def)
  let ?s1 = "s0\<lparr>cache_select := select_value accessPort addr\<rparr>"
  have sel: "dpSelect accessPort addr s = Some (OK, ?s1)"
    using w0 assms(1) by (simp add: dpSelect_def)
  have f1: "line ?s1 = line s" "sampled ?s1 = sampled s + 3"
    using l0 k0 by (simp_all add: same_link_def)
  have "read_outcome (line ?s1) (sampled ?s1) = Read d"
    using assms(3) by (simp add: f1)
  from dpRead_first_attempt [OF this, of addr True]
  obtain s' where "dpRead addr True ?s1 = Some (Read d, s')"
    and "same_link ?s1 s'" and "sampled s' = sampled s + 39"
    by (auto simp: f1)
  then show ?thesis
    using sel f1 by (auto simp: apRead_def same_link_def)
qed

text \<open>
  On this line every read of CTRL/STAT returns 0, and \<open>begin\<close> returns \<open>true\<close>.
\<close>

lemma begin_succeeds_without_power_up:
  "\<exists>s'. begin' 0 1 LOG_NORMAL (fresh_link never_powered_line) = Some (OK, s')"
proof -
  let ?s = "fresh_link never_powered_line"
  let ?r = "begin_reset 0 1 LOG_NORMAL ?s"
  have "read_outcome (line ?r) (sampled ?r) = Read 0x2BA01477"
    by (simp add: never_powered_line_idcode)
  from dpRead_first_attempt [OF this, of IDCODE False]
  obtain s1 where r: "dpRead IDCODE False ?r = Some (Read 0x2BA01477, s1)"
    and l1: "same_link ?r s1" and k1: "sampled s1 = 36"
    by auto
  let ?s2 = "log LOG_NORMAL (Found_processor 0x2BA01477) s1"
  have "cache_select ?r = 0xFFFFFFFF"
    by (simp add: begin_reset_def Let_def pinMode_emit)
  then have f2: "line s1 = never_powered_line" "sampled s1 = 36" "cache_select s1 = 0xFFFFFFFF"
    using l1 k1 by (simp_all add: same_link_def)
  have b1: "begin' 0 1 LOG_NORMAL ?s = begin_powerUp ?s2"
    using r by (simp add: begin'_def)
  have "\<exists>s3. same_link ?s2 s3 \<and> sampled s3 = sampled ?s2 + 147 \<and>
      begin_powerUp ?s2 = begin_accessPort s3"
    using begin_powerUp_four_reads [of ?s2 0 0 0 0]
    by (simp add: f2 never_powered_line_acks never_powered_line_ctrlstat not_powered_0)
  then obtain s3 where l3: "same_link ?s2 s3" and k3: "sampled s3 = 183"
    and b2: "begin_powerUp ?s2 = begin_accessPort s3"
    by (auto simp: f2)
  have f3: "line s3 = never_powered_line" "cache_select s3 = 0xFFFFFFFF"
    using l3 f2 by (simp_all add: same_link_def)
  have "\<exists>s4. apRead 0 MEM_IDR s3 = Some (Read 1, s4) \<and> line s4 = line s3 \<and>
      sampled s4 = sampled s3 + 39 \<and> cache_select s4 = select_value 0 MEM_IDR"
    by (rule apRead_first)
       (simp_all add: f3 k3 select_value_IDR never_powered_line_acks never_powered_line_idr)
  then obtain s4 where r4: "apRead 0 MEM_IDR s3 = Some (Read 1, s4)"
    and f4: "line s4 = never_powered_line" "sampled s4 = 222" "cache_select s4 = 0xF0"
    by (auto simp: f3 k3 select_value_IDR)
  have csw: "select_value 0 MEM_CSW = 0"
    by (simp add: select_value_def MEM_CSW_def)
  have "\<exists>s5. apWrite 0 MEM_CSW (push_bit 6 1 OR push_bit 4 1 OR push_bit 0 2) s4 =
      Some (write_outcome (received (line s4) (sampled s4 + 3) 3), s5) \<and>
      line s5 = line s4 \<and> sampled s5 = sampled s4 + 6 \<and>
      cache_select s5 = select_value 0 MEM_CSW"
    by (rule apWrite_first) (simp_all add: f4 csw never_powered_line_acks)
  then obtain s5 where "apWrite 0 MEM_CSW (push_bit 6 1 OR push_bit 4 1 OR push_bit 0 2) s4 =
      Some (OK, s5)"
    by (auto simp: f4 never_powered_line_acks write_outcome_def)
  then have "begin_accessPort s3 = Some (OK, s5)"
    using r4 by (simp add: begin_accessPort_def)
  then show ?thesis
    using b1 b2 by simp
qed

section \<open>More than ten attempts\<close>

lemma ten_waits_line_acks:
  "\<forall>i<10. received ten_waits_line (3 * i) 3 = 2"
  "received ten_waits_line 30 3 = 1"
proof -
  have "received ten_waits_line (3 * i) 3 = 2" if "i < 10" for i
  proof -
    have "3 * i mod 3 = 0" "(3 * i + 1) mod 3 = 1" "(3 * i + 2) mod 3 = 2"
      by presburger+
    moreover have "3 * i + 2 < 30"
      using that by simp
    ultimately show ?thesis
      by (simp add: received_3 ten_waits_line_def)
  qed
  then show "\<forall>i<10. received ten_waits_line (3 * i) 3 = 2"
    by blast
  show "received ten_waits_line 30 3 = 1"
    by (simp add: received_3 ten_waits_line_def)
qed

text \<open>
  After ten attempts answered WAIT the write is still going on: an eleventh attempt is
  made, and as it is answered OK the write returns \<open>true\<close>.
\<close>

lemma dpWrite_eleventh_attempt:
  "map_option fst (dpWrite CTRLSTAT False 0 (fresh_link ten_waits_line)) = Some OK"
proof -
  let ?s = "fresh_link ten_waits_line"
  have "\<forall>i<10. received (line ?s) (sampled ?s + 3 * i) 3 = 2"
    and "received (line ?s) (sampled ?s + 3 * 10) 3 = 1"
    by (simp_all add: ten_waits_line_acks)
  from dp_ok_after_waits(1) [OF this, of CTRLSTAT False 0] show ?thesis
    by auto
qed

end
